theory Spec2Isabelle
  imports Main "HOL-Library.Multiset" "HOL-Library.Char_ord" "HOL-Library.List_Lexorder"
begin

section \<open>The Go library functions the storage layer calls\<close>

text \<open>
  \<^verbatim>\<open>internal/storage/storage.go\<close> does its calendar arithmetic through Go's
  \<^verbatim>\<open>time\<close> package and its naming through \<^verbatim>\<open>fmt\<close>. Those functions are
  embedded first, following the library's own code: the proleptic Gregorian calendar of
  \<^verbatim>\<open>time.Date\<close> and \<^verbatim>\<open>Time.Date\<close>, \<^verbatim>\<open>Time.Weekday\<close>,
  \<^verbatim>\<open>Time.ISOWeek\<close>, \<^verbatim>\<open>Time.AddDate\<close>, the layouts \<^verbatim>\<open>2006-01-02\<close>,
  \<^verbatim>\<open>2006-01\<close> and \<^verbatim>\<open>2006\<close> of \<^verbatim>\<open>time.Parse\<close> and \<^verbatim>\<open>Time.Format\<close>,
  and the verbs \<^verbatim>\<open>%d\<close> and \<^verbatim>\<open>%02d\<close> of \<^verbatim>\<open>fmt.Sprintf\<close> and \<^verbatim>\<open>fmt.Sscanf\<close>.

  The times that \<^verbatim>\<open>time.Parse\<close> returns, and the times \<^verbatim>\<open>gatherWeeklyForMonth\<close>
  builds from them, are midnights in UTC, and of \<^verbatim>\<open>time.Now()\<close> the storage layer
  reads the calendar date only. Such a \<^verbatim>\<open>time.Time\<close> is a day number (type \<open>Time\<close>):
  the days since 0001-01-01 (a Monday), negative before it. The times of
  \<^verbatim>\<open>mondayOfISOWeek\<close> are built in \<^verbatim>\<open>time.Local\<close>, where what the clock shows
  depends on the zone rules in force: they are instants, in Unix seconds (type
  \<open>LocalTime\<close>), read through the location.

  Go strings are byte strings, a \<open>string\<close> here. Go's \<^verbatim>\<open>int\<close> has 64 bits: it is
  \<open>int\<close>, the range is checked where the library checks it (\<^verbatim>\<open>strconv.ParseInt\<close>
  inside \<^verbatim>\<open>Sscanf\<close>), and where a number read from a name is added to or multiplied
  the result is wrapped around (\<open>wrap64\<close>). The calendar functions of package
  \<^verbatim>\<open>time\<close> are written on unbounded integers; they give what Go gives as long as the
  time is one a \<^verbatim>\<open>time.Time\<close> can hold, some 290 thousand million years either side
  of 1970.
\<close>

definition wrap64 :: "int \<Rightarrow> int" where
  "wrap64 x = (x + 9223372036854775808) mod 18446744073709551616 - 9223372036854775808"

subsection \<open>Decimal output: \<^verbatim>\<open>%d\<close>, \<^verbatim>\<open>%02d\<close> and the fields of \<^verbatim>\<open>Time.Format\<close>\<close>

type_synonym Time = int

definition digit_char :: "nat \<Rightarrow> char" where
  "digit_char d = char_of (48 + d)"

fun digits :: "nat \<Rightarrow> string" where
  "digits n = (if n < 10 then [digit_char n] else digits (n div 10) @ [digit_char (n mod 10)])"

declare digits.simps [simp del]

definition zero_pad :: "nat \<Rightarrow> string \<Rightarrow> string" where
  "zero_pad w s = replicate (w - length s) (CHR ''0'') @ s"

text \<open>\<^verbatim>\<open>fmt.Sprintf("%d", x)\<close>.\<close>

definition fmt_d :: "int \<Rightarrow> string" where
  "fmt_d x = (if x < 0 then ''-'' @ digits (nat (- x)) else digits (nat x))"

text \<open>\<^verbatim>\<open>fmt.Sprintf("%02d", x)\<close>: the zero flag pads to the width, and the sign of a
  negative number takes one place of it.\<close>

definition fmt_02d :: "int \<Rightarrow> string" where
  "fmt_02d x = (if x < 0 then ''-'' @ zero_pad 1 (digits (nat (- x))) else zero_pad 2 (digits (nat x)))"

text \<open>\<^verbatim>\<open>appendInt(b, x, width)\<close> of package \<^verbatim>\<open>time\<close>: the sign, then the magnitude
  padded with zeros to the width.\<close>

definition appendInt :: "int \<Rightarrow> nat \<Rightarrow> string" where
  "appendInt x width =
     (if x < 0 then ''-'' @ zero_pad width (digits (nat (- x))) else zero_pad width (digits (nat x)))"

subsection \<open>The calendar of package \<^verbatim>\<open>time\<close>\<close>

definition isLeap :: "int \<Rightarrow> bool" where
  "isLeap year = (year mod 4 = 0 \<and> (year mod 100 \<noteq> 0 \<or> year mod 400 = 0))"

text \<open>\<^verbatim>\<open>daysBefore[m]\<close>: the days of a non-leap year before month \<open>m + 1\<close>.\<close>

definition daysBefore :: "int \<Rightarrow> int" where
  "daysBefore m =
     (if m = 0 then 0 else if m = 1 then 31 else if m = 2 then 59 else if m = 3 then 90
      else if m = 4 then 120 else if m = 5 then 151 else if m = 6 then 181
      else if m = 7 then 212 else if m = 8 then 243 else if m = 9 then 273
      else if m = 10 then 304 else if m = 11 then 334 else 365)"

definition daysIn :: "int \<Rightarrow> int \<Rightarrow> int" where
  "daysIn m year = (if m = 2 \<and> isLeap year then 29 else daysBefore m - daysBefore (m - 1))"

text \<open>\<^verbatim>\<open>norm(hi, lo, base)\<close>: carry \<open>lo\<close> into \<open>hi\<close> until \<open>0 \<le> lo < base\<close>.\<close>

definition norm :: "int \<Rightarrow> int \<Rightarrow> int \<Rightarrow> int \<times> int" where
  "norm hi lo base =
     (let (hi1, lo1) = (if lo < 0 then (let n = (- lo - 1) div base + 1 in (hi - n, lo + n * base))
                        else (hi, lo))
      in if lo1 \<ge> base then (let n = lo1 div base in (hi1 + n, lo1 - n * base)) else (hi1, lo1))"

text \<open>\<^verbatim>\<open>daysSinceEpoch(year)\<close>, counted from year 1: full 400-year, 100-year and 4-year
  cycles, then single years.\<close>

definition daysSinceEpoch :: "int \<Rightarrow> int" where
  "daysSinceEpoch year =
     (let y = year - 1;
          n400 = y div 400; y1 = y - 400 * n400;
          n100 = y1 div 100; y2 = y1 - 100 * n100;
          n4 = y2 div 4; y3 = y2 - 4 * n4
      in 146097 * n400 + 36524 * n100 + 1461 * n4 + 365 * y3)"

text \<open>The day number that \<^verbatim>\<open>time.Date(year, month, day, ...)\<close> computes: the month is
  normalised into the year, the day is added as it is, in or out of the month's range.
  In UTC, at midnight, that is the time.\<close>

definition Date :: "int \<Rightarrow> int \<Rightarrow> int \<Rightarrow> Time" where
  "Date year month day =
     (let (y, m0) = norm year (month - 1) 12;
          m = m0 + 1;
          d = daysSinceEpoch y + daysBefore (m - 1);
          d1 = (if isLeap y \<and> m \<ge> 3 then d + 1 else d)
      in d1 + (day - 1))"

text \<open>\<^verbatim>\<open>absDate(abs, full)\<close>: the year and the day of the year (from 0) of a day
  number. The 100-year and the 1-year quotients are cut off at 3 (\<^verbatim>\<open>n -= n >> 2\<close>).\<close>

definition absDate_year_yday :: "Time \<Rightarrow> int \<times> int" where
  "absDate_year_yday t =
     (let n400 = t div 146097; d1 = t - 146097 * n400;
          q100 = d1 div 36524; n100 = (if q100 = 4 then 3 else q100); d2 = d1 - 36524 * n100;
          n4 = d2 div 1461; d3 = d2 - 1461 * n4;
          q1 = d3 div 365; n1 = (if q1 = 4 then 3 else q1); d4 = d3 - 365 * n1
      in (400 * n400 + 100 * n100 + 4 * n4 + n1 + 1, d4))"

definition Year :: "Time \<Rightarrow> int" where
  "Year t = fst (absDate_year_yday t)"

definition YearDay0 :: "Time \<Rightarrow> int" where
  "YearDay0 t = snd (absDate_year_yday t)"

text \<open>The month and day part of \<^verbatim>\<open>absDate\<close>: the leap day is set apart, the month is
  estimated as \<open>day div 31\<close> and corrected by at most one.\<close>

definition absDate_month_day :: "Time \<Rightarrow> int \<times> int" where
  "absDate_month_day t =
     (let year = Year t; yday = YearDay0 t
      in if isLeap year \<and> yday = 31 + 29 - 1 then (2, 29)
         else (let day = (if isLeap year \<and> yday > 31 + 29 - 1 then yday - 1 else yday);
                   month = day div 31;
                   end = daysBefore (month + 1)
               in if day \<ge> end then (month + 2, day - end + 1)
                  else (month + 1, day - daysBefore month + 1)))"

definition Month :: "Time \<Rightarrow> int" where
  "Month t = fst (absDate_month_day t)"

definition Day :: "Time \<Rightarrow> int" where
  "Day t = snd (absDate_month_day t)"

text \<open>\<^verbatim>\<open>Time.Weekday\<close>, Sunday = 0: day 0 is a Monday.\<close>

definition Weekday :: "Time \<Rightarrow> int" where
  "Weekday t = (t + 1) mod 7"

text \<open>\<^verbatim>\<open>Time.ISOWeek\<close>: move to the Thursday of the week (Monday to Sunday); its year
  is the ISO year and its day of the year, divided by 7, the week.\<close>

definition ISOWeek :: "Time \<Rightarrow> int \<times> int" where
  "ISOWeek t =
     (let d0 = 4 - Weekday t;
          d = (if d0 = 4 then - 3 else d0);
          th = t + d
      in (Year th, YearDay0 th div 7 + 1))"

text \<open>\<^verbatim>\<open>Weekday.String\<close> and \<^verbatim>\<open>Month.String\<close>.\<close>

definition longDayNames :: "string list" where
  "longDayNames = [''Sunday'', ''Monday'', ''Tuesday'', ''Wednesday'', ''Thursday'', ''Friday'', ''Saturday'']"

definition Weekday_String :: "int \<Rightarrow> string" where
  "Weekday_String d =
     (if 0 \<le> d \<and> d \<le> 6 then longDayNames ! nat d
      else ''%!Weekday('' @ digits (nat (d mod 2 ^ 64)) @ '')'')"

definition longMonthNames :: "string list" where
  "longMonthNames = [''January'', ''February'', ''March'', ''April'', ''May'', ''June'', ''July'',
     ''August'', ''September'', ''October'', ''November'', ''December'']"

definition Month_String :: "int \<Rightarrow> string" where
  "Month_String m =
     (if 1 \<le> m \<and> m \<le> 12 then longMonthNames ! nat (m - 1)
      else ''%!Month('' @ digits (nat (m mod 2 ^ 64)) @ '')'')"

text \<open>\<^verbatim>\<open>Time.Format\<close> with the layouts \<^verbatim>\<open>2006-01-02\<close>, \<^verbatim>\<open>2006-01\<close> and
  \<^verbatim>\<open>2006\<close>.\<close>

definition Format_2006_01_02 :: "Time \<Rightarrow> string" where
  "Format_2006_01_02 t = appendInt (Year t) 4 @ ''-'' @ appendInt (Month t) 2 @ ''-'' @ appendInt (Day t) 2"

definition Format_2006_01 :: "Time \<Rightarrow> string" where
  "Format_2006_01 t = appendInt (Year t) 4 @ ''-'' @ appendInt (Month t) 2"

definition Format_2006 :: "Time \<Rightarrow> string" where
  "Format_2006 t = appendInt (Year t) 4"

subsection \<open>Times in a location\<close>

text \<open>
  A \<^verbatim>\<open>Location\<close> is taken as its function \<^verbatim>\<open>lookup\<close>: for an instant, in Unix
  seconds, the offset of the local clock from UTC in force at that instant (seconds
  east of Greenwich), and the instants \<open>start \<le> sec < end\<close> between which that offset
  holds. \<^verbatim>\<open>time.Local\<close> is the location of the process, a parameter \<open>Local\<close> of the
  functions that use it. A time in a location is its instant; the location is handed to
  every function that reads the local clock. All these times have no nanoseconds.
\<close>

type_synonym Location = "int \<Rightarrow> int \<times> int \<times> int"

type_synonym LocalTime = int

text \<open>\<^verbatim>\<open>alpha\<close> and \<^verbatim>\<open>omega\<close>, the beginning and the end of time, and the location
  \<^verbatim>\<open>time.UTC\<close>.\<close>

definition alpha :: int where
  "alpha = - 9223372036854775808"

definition omega :: int where
  "omega = 9223372036854775807"

definition UTC :: Location where
  "UTC sec = (0, alpha, omega)"

definition secondsPerDay :: int where
  "secondsPerDay = 86400"

text \<open>The seconds from 0001-01-01 to 1970-01-01, both at 00:00:00 UTC.\<close>

definition unixToInternal :: int where
  "unixToInternal = (1969 * 365 + 1969 div 4 - 1969 div 100 + 1969 div 400) * secondsPerDay"

text \<open>\<^verbatim>\<open>t.abs()\<close>: the seconds the local clock shows, counted from 0001-01-01 00:00:00
  as the day numbers are; \<^verbatim>\<open>absDate\<close> and \<^verbatim>\<open>absWeekday\<close> read the day number of it,
  \<^verbatim>\<open>absClock\<close> the time of the day.\<close>

definition abs_time :: "Location \<Rightarrow> LocalTime \<Rightarrow> int" where
  "abs_time loc t = t + fst (loc t) + unixToInternal"

definition local_day :: "Location \<Rightarrow> LocalTime \<Rightarrow> Time" where
  "local_day loc t = abs_time loc t div secondsPerDay"

definition Clock :: "Location \<Rightarrow> LocalTime \<Rightarrow> int \<times> int \<times> int" where
  "Clock loc t =
     (let sec0 = abs_time loc t mod secondsPerDay;
          hour = sec0 div 3600;
          sec1 = sec0 - hour * 3600;
          minute = sec1 div 60;
          sec = sec1 - minute * 60
      in (hour, minute, sec))"

text \<open>\<^verbatim>\<open>time.Date(year, month, day, hour, min, sec, 0, loc)\<close>. The time of the day is
  normalised into the day; the seconds of that date and time are taken as if UTC; the
  zone in force at that instant is looked up, and if the instant less its offset falls
  outside the zone's interval, the offset in force there is taken instead. A local
  time that the zone rules skip comes out as an instant whose clock shows another
  time.\<close>

definition Date_loc :: "int \<Rightarrow> int \<Rightarrow> int \<Rightarrow> int \<Rightarrow> int \<Rightarrow> int \<Rightarrow> Location \<Rightarrow> LocalTime" where
  "Date_loc year month day hour minute sec loc =
     (let (minute1, sec1) = norm minute sec 60;
          (hour1, minute2) = norm hour minute1 60;
          (day1, hour2) = norm day hour1 24;
          abs_sec = Date year month day1 * secondsPerDay + (hour2 * 3600 + minute2 * 60 + sec1);
          unix = abs_sec - unixToInternal;
          (offset, start, end) = loc unix
      in if offset \<noteq> 0 then
           (let utc = unix - offset;
                offset1 = (if utc < start \<or> utc \<ge> end then fst (loc utc) else offset)
            in unix - offset1)
         else unix)"

text \<open>\<^verbatim>\<open>t.AddDate(years, months, days)\<close>: \<^verbatim>\<open>Date\<close> on the local date and clock of
  \<open>t\<close> with the numbers added, in the location of \<open>t\<close>.\<close>

definition AddDate :: "Location \<Rightarrow> LocalTime \<Rightarrow> int \<Rightarrow> int \<Rightarrow> int \<Rightarrow> LocalTime" where
  "AddDate loc t years months days =
     (let d = local_day loc t;
          (hour, minute, sec) = Clock loc t
      in Date_loc (wrap64 (Year d + years)) (wrap64 (Month d + months)) (wrap64 (Day d + days))
           hour minute sec loc)"

subsection \<open>Errors\<close>

text \<open>The two kinds of failure of the storage layer: a name that does not parse, and a
  failing operation of the file system.\<close>

datatype error = ParseError | StoreError

subsection \<open>\<^verbatim>\<open>time.Parse\<close>\<close>

definition isDigit :: "string \<Rightarrow> nat \<Rightarrow> bool" where
  "isDigit s i = (i < length s \<and> 48 \<le> (of_char (s ! i) :: nat) \<and> (of_char (s ! i) :: nat) \<le> 57)"

definition digit_val :: "char \<Rightarrow> nat" where
  "digit_val c = of_char c - 48"

definition digits_val :: "string \<Rightarrow> nat" where
  "digits_val s = foldl (\<lambda>acc c. acc * 10 + digit_val c) 0 s"

text \<open>\<^verbatim>\<open>getnum(s, true)\<close>: exactly two digits.\<close>

definition getnum_fixed :: "string \<Rightarrow> error + (int \<times> string)" where
  "getnum_fixed s =
     (if \<not> isDigit s 0 then Inl ParseError
      else if \<not> isDigit s 1 then Inl ParseError
      else Inr (int (digit_val (s ! 0)) * 10 + int (digit_val (s ! 1)), drop 2 s))"

text \<open>\<^verbatim>\<open>atoi\<close> of package \<^verbatim>\<open>time\<close>: an optional sign, then digits and nothing else.\<close>

definition atoi :: "string \<Rightarrow> error + int" where
  "atoi s =
     (let neg = (s \<noteq> [] \<and> hd s = CHR ''-'');
          s1 = (if s \<noteq> [] \<and> (hd s = CHR ''-'' \<or> hd s = CHR ''+'') then tl s else s)
      in if \<forall>i < length s1. isDigit s1 i
         then Inr (if neg then - int (digits_val s1) else int (digits_val s1))
         else Inl ParseError)"

text \<open>The field \<^verbatim>\<open>2006\<close> (\<^verbatim>\<open>stdLongYear\<close>): four characters, the first a digit, read by
  \<^verbatim>\<open>atoi\<close>.\<close>

definition parse_stdLongYear :: "string \<Rightarrow> error + (int \<times> string)" where
  "parse_stdLongYear s =
     (if length s < 4 \<or> \<not> isDigit s 0 then Inl ParseError
      else (case atoi (take 4 s) of Inl e \<Rightarrow> Inl e | Inr year \<Rightarrow> Inr (year, drop 4 s)))"

text \<open>\<^verbatim>\<open>skip(value, "-")\<close>: the literal text between two fields.\<close>

definition skip_dash :: "string \<Rightarrow> error + string" where
  "skip_dash s = (if s = [] \<or> hd s \<noteq> CHR ''-'' then Inl ParseError else Inr (tl s))"

text \<open>The field \<^verbatim>\<open>01\<close> (\<^verbatim>\<open>stdZeroMonth\<close>): two digits, in the range 1 to 12.\<close>

definition parse_stdZeroMonth :: "string \<Rightarrow> error + (int \<times> string)" where
  "parse_stdZeroMonth s =
     (case getnum_fixed s of Inl e \<Rightarrow> Inl e
      | Inr (month, rest) \<Rightarrow> if month \<le> 0 \<or> 12 < month then Inl ParseError else Inr (month, rest))"

text \<open>\<^verbatim>\<open>time.Parse("2006-01-02", s)\<close>: year, month and day, no text after them, and
  the day within the month.\<close>

definition Parse_2006_01_02 :: "string \<Rightarrow> error + Time" where
  "Parse_2006_01_02 s =
     (case parse_stdLongYear s of Inl e \<Rightarrow> Inl e | Inr (year, s1) \<Rightarrow>
       (case skip_dash s1 of Inl e \<Rightarrow> Inl e | Inr s2 \<Rightarrow>
         (case parse_stdZeroMonth s2 of Inl e \<Rightarrow> Inl e | Inr (month, s3) \<Rightarrow>
           (case skip_dash s3 of Inl e \<Rightarrow> Inl e | Inr s4 \<Rightarrow>
             (case getnum_fixed s4 of Inl e \<Rightarrow> Inl e | Inr (day, s5) \<Rightarrow>
                if s5 \<noteq> [] then Inl ParseError
                else if day < 1 \<or> day > daysIn month year then Inl ParseError
                else Inr (Date year month day))))))"

text \<open>\<^verbatim>\<open>time.Parse("2006-01", s)\<close>: the day defaults to 1.\<close>

definition Parse_2006_01 :: "string \<Rightarrow> error + Time" where
  "Parse_2006_01 s =
     (case parse_stdLongYear s of Inl e \<Rightarrow> Inl e | Inr (year, s1) \<Rightarrow>
       (case skip_dash s1 of Inl e \<Rightarrow> Inl e | Inr s2 \<Rightarrow>
         (case parse_stdZeroMonth s2 of Inl e \<Rightarrow> Inl e | Inr (month, s3) \<Rightarrow>
            if s3 \<noteq> [] then Inl ParseError
            else Inr (Date year month 1))))"

subsection \<open>\<^verbatim>\<open>fmt.Sscanf\<close> with the verb \<^verbatim>\<open>%d\<close>\<close>

text \<open>The width in bytes of a leading white-space rune of the input (\<^verbatim>\<open>isSpace\<close>, on
  the UTF-8 encoding), 0 when the input starts with anything else. The newline, which
  \<^verbatim>\<open>Sscanf\<close> treats apart, counts as white space here.\<close>

definition space_width :: "string \<Rightarrow> nat" where
  "space_width s =
     (case map of_char s of
        [] \<Rightarrow> 0
      | b0 # bs \<Rightarrow>
          if (9 :: nat) \<le> b0 \<and> b0 \<le> 13 \<or> b0 = 32 then 1
          else (case bs of
                  [] \<Rightarrow> 0
                | b1 # cs \<Rightarrow>
                    if b0 = 194 \<and> (b1 = (133 :: nat) \<or> b1 = 160) then 2
                    else (case cs of
                            [] \<Rightarrow> 0
                          | b2 # _ \<Rightarrow>
                              if b0 = 225 \<and> b1 = 154 \<and> b2 = (128 :: nat) then 3
                              else if b0 = 226 \<and> b1 = 128
                                      \<and> (128 \<le> b2 \<and> b2 \<le> 138 \<or> b2 = 168 \<or> b2 = 169 \<or> b2 = 175) then 3
                              else if b0 = 226 \<and> b1 = 129 \<and> b2 = 159 then 3
                              else if b0 = 227 \<and> b1 = 128 \<and> b2 = 128 then 3
                              else 0)))"

text \<open>\<^verbatim>\<open>ss.SkipSpace\<close> as \<^verbatim>\<open>Sscanf\<close> runs it: white space is dropped, a newline
  is an error.\<close>

function SkipSpace :: "string \<Rightarrow> error + string" where
  "SkipSpace s =
     (if s = [] then Inr []
      else if hd s = CHR 0x0A then Inl ParseError
      else if space_width s = 0 then Inr s
      else SkipSpace (drop (space_width s) s))"
  by pat_completeness auto
termination
  by (relation "measure length") auto

declare SkipSpace.simps [simp del]

text \<open>The characters \<^verbatim>\<open>scanNumber\<close> accepts for \<^verbatim>\<open>%d\<close>: the decimal digits
  (\<^verbatim>\<open>getBase\<close> gives \<^verbatim>\<open>"0123456789"\<close>; the underscore belongs to \<^verbatim>\<open>%v\<close>
  only).\<close>

definition isNumberChar :: "char \<Rightarrow> bool" where
  "isNumberChar c = (48 \<le> (of_char c :: nat) \<and> (of_char c :: nat) \<le> 57)"

text \<open>\<^verbatim>\<open>ss.scanInt('d', 64)\<close>: white space, an optional sign, the longest run of digits
  (at least one), read by \<^verbatim>\<open>strconv.ParseInt(tok, 10, 64)\<close>, which refuses a value
  outside 64 bits. The result is the value and the rest of the input.\<close>

definition scanInt :: "string \<Rightarrow> error + (int \<times> string)" where
  "scanInt s0 =
     (case SkipSpace s0 of Inl e \<Rightarrow> Inl e | Inr s \<Rightarrow>
      if s = [] then Inl ParseError
      else let neg = (hd s = CHR ''-'');
               s1 = (if hd s = CHR ''+'' \<or> hd s = CHR ''-'' then tl s else s);
               tok = takeWhile isNumberChar s1;
               rest = dropWhile isNumberChar s1
           in if tok = [] then Inl ParseError
              else let v = (if neg then - int (digits_val tok) else int (digits_val tok))
                   in if v < - 9223372036854775808 \<or> 9223372036854775807 < v then Inl ParseError
                      else Inr (v, rest))"

text \<open>Literal text of the format (\<^verbatim>\<open>ss.advance\<close>): every character has to be there.\<close>

definition match_literal :: "string \<Rightarrow> string \<Rightarrow> error + string" where
  "match_literal lit s = (if take (length lit) s = lit then Inr (drop (length lit) s) else Inl ParseError)"

text \<open>\<^verbatim>\<open>fmt.Sscanf(s, "%d" + lit + "%d", &a, &b)\<close>; input left over is not an error.\<close>

definition Sscanf_d_lit_d :: "string \<Rightarrow> string \<Rightarrow> error + (int \<times> int)" where
  "Sscanf_d_lit_d lit s =
     (case scanInt s of Inl e \<Rightarrow> Inl e | Inr (a, s1) \<Rightarrow>
       (case match_literal lit s1 of Inl e \<Rightarrow> Inl e | Inr s2 \<Rightarrow>
         (case scanInt s2 of Inl e \<Rightarrow> Inl e | Inr (b, s3) \<Rightarrow> Inr (a, b))))"

text \<open>\<^verbatim>\<open>fmt.Sscanf(s, "%d", &a)\<close>.\<close>

definition Sscanf_d :: "string \<Rightarrow> error + int" where
  "Sscanf_d s = (case scanInt s of Inl e \<Rightarrow> Inl e | Inr (a, s1) \<Rightarrow> Inr a)"

subsection \<open>\<^verbatim>\<open>strings\<close> and \<^verbatim>\<open>sort\<close>\<close>

definition HasSuffix :: "string \<Rightarrow> string \<Rightarrow> bool" where
  "HasSuffix s suffix = (length s \<ge> length suffix \<and> drop (length s - length suffix) s = suffix)"

definition TrimSuffix :: "string \<Rightarrow> string \<Rightarrow> string" where
  "TrimSuffix s suffix = (if HasSuffix s suffix then take (length s - length suffix) s else s)"

fun Join :: "string list \<Rightarrow> string \<Rightarrow> string" where
  "Join [] sep = []"
| "Join [a] sep = a"
| "Join (a # b # rest) sep = a @ sep @ Join (b # rest) sep"

text \<open>\<^verbatim>\<open>sort.Slice(xs, less)\<close> promises a permutation of the slice that is sorted by
  the comparison, and nothing about the order of elements that it does not separate.
  Here it sorts by insertion.\<close>

fun insert_by :: "('a \<Rightarrow> 'a \<Rightarrow> bool) \<Rightarrow> 'a \<Rightarrow> 'a list \<Rightarrow> 'a list" where
  "insert_by lt x [] = [x]"
| "insert_by lt x (y # ys) = (if lt x y then x # y # ys else y # insert_by lt x ys)"

definition sort_Slice :: "('a \<Rightarrow> 'a \<Rightarrow> bool) \<Rightarrow> 'a list \<Rightarrow> 'a list" where
  "sort_Slice lt xs = foldr (insert_by lt) xs []"

section \<open>The storage layer: \<^verbatim>\<open>internal/storage/storage.go\<close>\<close>

subsection \<open>Categories, notes and the file system\<close>

datatype Category = CategoryDaily | CategoryWeekly | CategoryMonthly | CategoryQuarterly | CategoryYearly

record Reminder =
  Category :: Category
  Name :: string
  Label :: string

record NoteFile =
  nf_Name :: string
  nf_Category :: Category

text \<open>
  The store keeps one directory for every project and category and one file
  \<^verbatim>\<open>name.md\<close> for every note. The file system under the store's root is the state
  the functions read: for every directory whether \<^verbatim>\<open>os.MkdirAll\<close> succeeds on it and
  what \<^verbatim>\<open>os.ReadDir\<close> returns (the entries with their \<^verbatim>\<open>IsDir\<close> flag, or a
  failure), and for every note path what \<^verbatim>\<open>os.ReadFile\<close> returns and whether
  \<^verbatim>\<open>os.Stat\<close> succeeds. The field \<^verbatim>\<open>Path\<close> of a \<^verbatim>\<open>NoteFile\<close>, which the
  functions modelled here never read, is left out.
\<close>

datatype read_result = NotExist | ReadFailed | Content string

record filesystem =
  MkdirAll_ok :: "string \<Rightarrow> Category \<Rightarrow> bool"
  ReadDir :: "string \<Rightarrow> Category \<Rightarrow> (string \<times> bool) list option"
  ReadFile :: "string \<Rightarrow> Category \<Rightarrow> string \<Rightarrow> read_result"
  Stat_ok :: "string \<Rightarrow> Category \<Rightarrow> string \<Rightarrow> bool"

text \<open>\<^verbatim>\<open>ListNotes\<close>: the files \<^verbatim>\<open>*.md\<close> of the directory, without the suffix,
  sorted by name descending.\<close>

fun note_entries :: "Category \<Rightarrow> (string \<times> bool) list \<Rightarrow> NoteFile list" where
  "note_entries category [] = []"
| "note_entries category ((name, is_dir) # es) =
     (if is_dir \<or> \<not> HasSuffix name ''.md'' then note_entries category es
      else \<lparr>nf_Name = TrimSuffix name ''.md'', nf_Category = category\<rparr> # note_entries category es)"

definition ListNotes :: "filesystem \<Rightarrow> string \<Rightarrow> Category \<Rightarrow> error + NoteFile list" where
  "ListNotes fs project category =
     (if \<not> MkdirAll_ok fs project category then Inl StoreError
      else (case ReadDir fs project category of
              None \<Rightarrow> Inl StoreError
            | Some entries \<Rightarrow>
                Inr (sort_Slice (\<lambda>a b. nf_Name a > nf_Name b) (note_entries category entries))))"

text \<open>\<^verbatim>\<open>ReadNote\<close>: a note that does not exist reads as the empty string.\<close>

definition ReadNote :: "filesystem \<Rightarrow> string \<Rightarrow> Category \<Rightarrow> string \<Rightarrow> error + string" where
  "ReadNote fs project category name =
     (case ReadFile fs project category name of
        NotExist \<Rightarrow> Inr []
      | ReadFailed \<Rightarrow> Inl StoreError
      | Content data \<Rightarrow> Inr data)"

definition NoteExists :: "filesystem \<Rightarrow> string \<Rightarrow> Category \<Rightarrow> string \<Rightarrow> bool" where
  "NoteExists fs project category name = Stat_ok fs project category name"

subsection \<open>Period names\<close>

text \<open>The ISO week name \<^verbatim>\<open>fmt.Sprintf("%d-W%02d", wy, wn)\<close> of the week of a day, as
  \<^verbatim>\<open>CheckMissingSummaries\<close> and \<^verbatim>\<open>gatherWeeklyForMonth\<close> build it.\<close>

definition weekName :: "Time \<Rightarrow> string" where
  "weekName t = (let (wy, wn) = ISOWeek t in fmt_d wy @ ''-W'' @ fmt_02d wn)"

definition quarterName :: "Time \<Rightarrow> string" where
  "quarterName t = (let q = (Month t - 1) div 3 + 1 in fmt_d (Year t) @ ''-Q'' @ fmt_d q)"

definition categoryOrder :: "Category \<Rightarrow> int" where
  "categoryOrder c =
     (case c of CategoryWeekly \<Rightarrow> 0 | CategoryMonthly \<Rightarrow> 1 | CategoryQuarterly \<Rightarrow> 2
      | CategoryYearly \<Rightarrow> 3 | CategoryDaily \<Rightarrow> 4)"

subsection \<open>\<^verbatim>\<open>mondayOfISOWeek\<close>\<close>

definition mondayOfISOWeek :: "Location \<Rightarrow> string \<Rightarrow> error + LocalTime" where
  "mondayOfISOWeek Local name =
     (case Sscanf_d_lit_d ''-W'' name of
        Inl err \<Rightarrow> Inl err
      | Inr (year, week) \<Rightarrow>
          let jan4 = Date_loc year 1 4 0 0 0 Local;
              weekday0 = Weekday (local_day Local jan4);
              weekday = (if weekday0 = 0 then 7 else weekday0);
              mondayWeek1 = AddDate Local jan4 0 0 (- (weekday - 1));
              monday = AddDate Local mondayWeek1 0 0 (wrap64 ((week - 1) * 7))
          in Inr monday)"

subsection \<open>Reference content\<close>

text \<open>The rule that opens and closes every header: twice the character U+2500, three
  bytes each in UTF-8.\<close>

definition rule2 :: string where
  "rule2 = [CHR 0xE2, CHR 0x94, CHR 0x80, CHR 0xE2, CHR 0x94, CHR 0x80]"

definition NL :: string where
  "NL = [CHR 0x0A]"

text \<open>The loop of \<^verbatim>\<open>gatherDailyForWeek\<close> over \<open>i = 0, ..., 6\<close>; the first failing
  read ends it.\<close>

function gatherDailyForWeek_loop ::
  "filesystem \<Rightarrow> Location \<Rightarrow> string \<Rightarrow> LocalTime \<Rightarrow> int \<Rightarrow> string list \<Rightarrow> error + string list" where
  "gatherDailyForWeek_loop fs Local project monday i parts =
     (if i < 7 then
        (let day = AddDate Local monday 0 0 i;
             dayName = Format_2006_01_02 (local_day Local day)
         in case ReadNote fs project CategoryDaily dayName of
              Inl err \<Rightarrow> Inl err
            | Inr content \<Rightarrow>
                if content \<noteq> [] then
                  (let header = rule2 @ '' '' @ dayName @ '' (''
                                  @ Weekday_String (Weekday (local_day Local day)) @ '') '' @ rule2
                   in gatherDailyForWeek_loop fs Local project monday (i + 1) (parts @ [header @ NL @ content]))
                else gatherDailyForWeek_loop fs Local project monday (i + 1) parts)
      else Inr parts)"
  by pat_completeness auto
termination
  by (relation "measure (\<lambda>(fs, Local, project, monday, i, parts). nat (7 - i))") auto

declare gatherDailyForWeek_loop.simps [simp del]

definition gatherDailyForWeek :: "filesystem \<Rightarrow> Location \<Rightarrow> string \<Rightarrow> string \<Rightarrow> error + string" where
  "gatherDailyForWeek fs Local project name =
     (case mondayOfISOWeek Local name of
        Inl err \<Rightarrow> Inl err
      | Inr monday \<Rightarrow>
          (case gatherDailyForWeek_loop fs Local project monday 0 [] of
             Inl err \<Rightarrow> Inl err
           | Inr parts \<Rightarrow>
               if length parts = 0 then Inr ''(no daily entries for this week)''
               else Inr (Join parts (NL @ NL))))"

text \<open>The first loop of \<^verbatim>\<open>gatherWeeklyForMonth\<close>, over the days \<open>d\<close> of the month:
  the week names not seen before, in the order they turn up. The map \<^verbatim>\<open>seen\<close> is the
  function telling which keys it holds.\<close>

function weekNames_loop ::
  "int \<Rightarrow> int \<Rightarrow> int \<Rightarrow> int \<Rightarrow> (string \<Rightarrow> bool) \<Rightarrow> string list \<Rightarrow> string list" where
  "weekNames_loop year month daysInMonth d seen weekNames =
     (if d \<le> daysInMonth then
        (let day = Date year month d;
             wk = weekName day
         in if \<not> seen wk then weekNames_loop year month daysInMonth (d + 1) (seen(wk := True)) (weekNames @ [wk])
            else weekNames_loop year month daysInMonth (d + 1) seen weekNames)
      else weekNames)"
  by pat_completeness auto
termination
  by (relation "measure (\<lambda>(year, month, daysInMonth, d, seen, weekNames). nat (daysInMonth + 1 - d))") auto

declare weekNames_loop.simps [simp del]

text \<open>The loops that read one note for every name of a list and always add a block:
  the content under its header, or \<^verbatim>\<open>(no summary)\<close>.\<close>

definition summary_block :: "string \<Rightarrow> string \<Rightarrow> string" where
  "summary_block header content =
     (if content \<noteq> [] then header @ NL @ content else header @ NL @ ''(no summary)'')"

fun gatherWeeklyForMonth_loop ::
  "filesystem \<Rightarrow> string \<Rightarrow> string list \<Rightarrow> string list \<Rightarrow> error + string list" where
  "gatherWeeklyForMonth_loop fs project [] parts = Inr parts"
| "gatherWeeklyForMonth_loop fs project (wk # weekNames) parts =
     (case ReadNote fs project CategoryWeekly wk of
        Inl err \<Rightarrow> Inl err
      | Inr content \<Rightarrow>
          (let header = rule2 @ '' '' @ wk @ '' '' @ rule2
           in gatherWeeklyForMonth_loop fs project weekNames (parts @ [summary_block header content])))"

definition gatherWeeklyForMonth :: "filesystem \<Rightarrow> string \<Rightarrow> string \<Rightarrow> error + string" where
  "gatherWeeklyForMonth fs project name =
     (case Parse_2006_01 name of
        Inl err \<Rightarrow> Inl err
      | Inr t \<Rightarrow>
          let year = Year t; month = Month t;
              daysInMonth = Day (Date year (month + 1) 0);
              weekNames = weekNames_loop year month daysInMonth 1 (\<lambda>k. False) []
          in (case gatherWeeklyForMonth_loop fs project weekNames [] of
                Inl err \<Rightarrow> Inl err
              | Inr parts \<Rightarrow>
                  if length parts = 0 then Inr ''(no weekly summaries for this month)''
                  else Inr (Join parts (NL @ NL))))"

function gatherMonthlyForQuarter_loop ::
  "filesystem \<Rightarrow> string \<Rightarrow> int \<Rightarrow> int \<Rightarrow> int \<Rightarrow> string list \<Rightarrow> error + string list" where
  "gatherMonthlyForQuarter_loop fs project year startMonth i parts =
     (if i < 3 then
        (let m = wrap64 (startMonth + i);
             monthName = fmt_d year @ ''-'' @ fmt_02d m
         in case ReadNote fs project CategoryMonthly monthName of
              Inl err \<Rightarrow> Inl err
            | Inr content \<Rightarrow>
                (let header = rule2 @ '' '' @ monthName @ '' ('' @ Month_String m @ '') '' @ rule2
                 in gatherMonthlyForQuarter_loop fs project year startMonth (i + 1)
                      (parts @ [summary_block header content])))
      else Inr parts)"
  by pat_completeness auto
termination
  by (relation "measure (\<lambda>(fs, project, year, startMonth, i, parts). nat (3 - i))") auto

declare gatherMonthlyForQuarter_loop.simps [simp del]

definition gatherMonthlyForQuarter :: "filesystem \<Rightarrow> string \<Rightarrow> string \<Rightarrow> error + string" where
  "gatherMonthlyForQuarter fs project name =
     (case Sscanf_d_lit_d ''-Q'' name of
        Inl err \<Rightarrow> Inl err
      | Inr (year, q) \<Rightarrow>
          let startMonth = wrap64 ((q - 1) * 3 + 1)
          in (case gatherMonthlyForQuarter_loop fs project year startMonth 0 [] of
                Inl err \<Rightarrow> Inl err
              | Inr parts \<Rightarrow> Inr (Join parts (NL @ NL))))"

function gatherQuarterlyForYear_loop ::
  "filesystem \<Rightarrow> string \<Rightarrow> int \<Rightarrow> int \<Rightarrow> string list \<Rightarrow> error + string list" where
  "gatherQuarterlyForYear_loop fs project year q parts =
     (if q \<le> 4 then
        (let qName = fmt_d year @ ''-Q'' @ fmt_d q
         in case ReadNote fs project CategoryQuarterly qName of
              Inl err \<Rightarrow> Inl err
            | Inr content \<Rightarrow>
                (let header = rule2 @ '' '' @ qName @ '' '' @ rule2
                 in gatherQuarterlyForYear_loop fs project year (q + 1)
                      (parts @ [summary_block header content])))
      else Inr parts)"
  by pat_completeness auto
termination
  by (relation "measure (\<lambda>(fs, project, year, q, parts). nat (5 - q))") auto

declare gatherQuarterlyForYear_loop.simps [simp del]

definition gatherQuarterlyForYear :: "filesystem \<Rightarrow> string \<Rightarrow> string \<Rightarrow> error + string" where
  "gatherQuarterlyForYear fs project name =
     (case Sscanf_d name of
        Inl err \<Rightarrow> Inl err
      | Inr year \<Rightarrow>
          (case gatherQuarterlyForYear_loop fs project year 1 [] of
             Inl err \<Rightarrow> Inl err
           | Inr parts \<Rightarrow> Inr (Join parts (NL @ NL))))"

definition GatherReferenceContent ::
  "filesystem \<Rightarrow> Location \<Rightarrow> string \<Rightarrow> Category \<Rightarrow> string \<Rightarrow> error + string" where
  "GatherReferenceContent fs Local project category name =
     (case category of
        CategoryWeekly \<Rightarrow> gatherDailyForWeek fs Local project name
      | CategoryMonthly \<Rightarrow> gatherWeeklyForMonth fs project name
      | CategoryQuarterly \<Rightarrow> gatherMonthlyForQuarter fs project name
      | CategoryYearly \<Rightarrow> gatherQuarterlyForYear fs project name
      | CategoryDaily \<Rightarrow> Inr [])"

subsection \<open>Reminders\<close>

text \<open>The loop of \<^verbatim>\<open>CheckMissingSummaries\<close> that parses the names of the daily
  notes; a name that does not parse is passed over.\<close>

fun parse_daily_dates :: "NoteFile list \<Rightarrow> Time list" where
  "parse_daily_dates [] = []"
| "parse_daily_dates (n # notes) =
     (case Parse_2006_01_02 (nf_Name n) of
        Inl err \<Rightarrow> parse_daily_dates notes
      | Inr d \<Rightarrow> d # parse_daily_dates notes)"

text \<open>
  The four maps \<^verbatim>\<open>weeks\<close>, \<^verbatim>\<open>months\<close>, \<^verbatim>\<open>quarters\<close> and \<^verbatim>\<open>years\<close>
  hold the value \<^verbatim>\<open>true\<close> only, so each is the list of its keys, without
  duplicates; \<^verbatim>\<open>m[k] = true\<close> is \<open>map_put\<close>. Go leaves the order in which
  \<^verbatim>\<open>range\<close> visits the keys of a map open: it is the parameter \<open>range_order\<close> of
  \<open>CheckMissingSummaries\<close>, a rearrangement of the keys.
\<close>

definition map_put :: "string list \<Rightarrow> string \<Rightarrow> string list" where
  "map_put keys k = (if k \<in> set keys then keys else keys @ [k])"

fun collect_periods ::
  "string \<Rightarrow> string \<Rightarrow> string \<Rightarrow> string \<Rightarrow> Time list
   \<Rightarrow> string list \<times> string list \<times> string list \<times> string list
   \<Rightarrow> string list \<times> string list \<times> string list \<times> string list" where
  "collect_periods currentWeek currentMonth currentQuarter currentYear [] acc = acc"
| "collect_periods currentWeek currentMonth currentQuarter currentYear (d # dates)
     (weeks, months, quarters, years) =
     (let weekKey = weekName d;
          monthKey = Format_2006_01 d;
          quarterKey = quarterName d;
          yearKey = Format_2006 d
      in collect_periods currentWeek currentMonth currentQuarter currentYear dates
           (if weekKey \<noteq> currentWeek then map_put weeks weekKey else weeks,
            if monthKey \<noteq> currentMonth then map_put months monthKey else months,
            if quarterKey \<noteq> currentQuarter then map_put quarters quarterKey else quarters,
            if yearKey \<noteq> currentYear then map_put years yearKey else years))"

text \<open>One of the four loops that check each period for a missing summary: the names
  in the order \<^verbatim>\<open>range\<close> visits them, the category and the text before the name in
  the label.\<close>

fun missing_summaries ::
  "filesystem \<Rightarrow> string \<Rightarrow> Category \<Rightarrow> string \<Rightarrow> string list \<Rightarrow> Reminder list" where
  "missing_summaries fs project category label [] = []"
| "missing_summaries fs project category label (name # names) =
     (if \<not> NoteExists fs project category name
      then \<lparr>Category = category, Name = name, Label = label @ name\<rparr>
             # missing_summaries fs project category label names
      else missing_summaries fs project category label names)"

text \<open>The comparison \<^verbatim>\<open>CheckMissingSummaries\<close> sorts by: the category order, then
  the name descending. Go compares strings byte by byte, as \<open><\<close> on \<open>string\<close> does.\<close>

definition reminder_less :: "Reminder \<Rightarrow> Reminder \<Rightarrow> bool" where
  "reminder_less a b =
     (let ci = categoryOrder (Category a); cj = categoryOrder (Category b)
      in if ci \<noteq> cj then ci < cj else Name a > Name b)"

text \<open>The part of \<^verbatim>\<open>CheckMissingSummaries\<close> after the dates are parsed, with
  \<open>now\<close> the value of \<^verbatim>\<open>time.Now()\<close>.\<close>

definition summaries_for_dates ::
  "filesystem \<Rightarrow> (string list \<Rightarrow> string list) \<Rightarrow> Time \<Rightarrow> string \<Rightarrow> Time list \<Rightarrow> Reminder list" where
  "summaries_for_dates fs range_order now project dates =
     (let currentWeek = weekName now;
          currentMonth = Format_2006_01 now;
          currentQuarter = quarterName now;
          currentYear = Format_2006 now;
          (weeks, months, quarters, years) =
             collect_periods currentWeek currentMonth currentQuarter currentYear dates ([], [], [], []);
          reminders =
             missing_summaries fs project CategoryWeekly ''Weekly summary for '' (range_order weeks)
           @ missing_summaries fs project CategoryMonthly ''Monthly summary for '' (range_order months)
           @ missing_summaries fs project CategoryQuarterly ''Quarterly summary for '' (range_order quarters)
           @ missing_summaries fs project CategoryYearly ''Yearly summary for '' (range_order years)
      in sort_Slice reminder_less reminders)"

definition CheckMissingSummaries ::
  "filesystem \<Rightarrow> (string list \<Rightarrow> string list) \<Rightarrow> Time \<Rightarrow> string \<Rightarrow> error + Reminder list" where
  "CheckMissingSummaries fs range_order now project =
     (case ListNotes fs project CategoryDaily of
        Inl err \<Rightarrow> Inl err
      | Inr notes \<Rightarrow>
          if length notes = 0 then Inr []
          else (let dates = parse_daily_dates notes
                in if length dates = 0 then Inr []
                   else Inr (summaries_for_dates fs range_order now project dates)))"

section \<open>Notions the statements use\<close>

text \<open>The days of the year before the first of month \<open>m\<close>, the leap day counted:
  what \<open>Date\<close> adds to the first day of the year.\<close>

definition cumDays :: "int \<Rightarrow> int \<Rightarrow> int" where
  "cumDays y m = daysBefore (m - 1) + (if isLeap y \<and> 3 \<le> m then 1 else 0)"

text \<open>Where \<^verbatim>\<open>scanNumber\<close> stops: at the end of the input, or before a character
  that is no number character.\<close>

definition stops_number :: "string \<Rightarrow> bool" where
  "stops_number rest = (rest = [] \<or> \<not> isNumberChar (hd rest))"

definition all_digits :: "string \<Rightarrow> bool" where
  "all_digits ds = (\<forall>c \<in> set ds. \<exists>d < 10. c = digit_char d)"

text \<open>Go keeps a \<^verbatim>\<open>time.Time\<close> in 64-bit seconds and its years in 64-bit integers.
  The days up to \<open>10\<^sup>1\<^sup>4\<close> either side of 0001-01-01, some 270 thousand million years,
  are well within what the package computes without overflow.\<close>

definition Time_in_range :: "Time \<Rightarrow> bool" where
  "Time_in_range t = (- 100000000000000 \<le> t \<and> t \<le> 100000000000000)"

text \<open>The canonical period names of the specification: \<^verbatim>\<open>YYYY-Www\<close>,
  \<^verbatim>\<open>YYYY-Qq\<close> with \<open>q\<close> from 1 to 4, and \<^verbatim>\<open>YYYY\<close>.\<close>

definition digit_chars :: "string \<Rightarrow> bool" where
  "digit_chars s = list_all (\<lambda>c. 48 \<le> (of_char c :: nat) \<and> (of_char c :: nat) \<le> 57) s"

definition is_YYYY_Www :: "string \<Rightarrow> bool" where
  "is_YYYY_Www s = (length s = 8 \<and> digit_chars (take 4 s) \<and> take 2 (drop 4 s) = ''-W''
      \<and> digit_chars (drop 6 s))"




text \<open>Every read of a note of the category succeeds: the file is there, or it is
  missing, which is no error. Then \<open>note_text\<close> is what \<open>ReadNote\<close> returns.\<close>

definition reads_ok :: "filesystem \<Rightarrow> string \<Rightarrow> Category \<Rightarrow> bool" where
  "reads_ok fs project category = (\<forall>name. ReadFile fs project category name \<noteq> ReadFailed)"

definition note_text :: "filesystem \<Rightarrow> string \<Rightarrow> Category \<Rightarrow> string \<Rightarrow> string" where
  "note_text fs project category name =
     (case ReadFile fs project category name of Content data \<Rightarrow> data | _ \<Rightarrow> [])"

text \<open>What the specification says a reference bundle holds. For a week: one block for
  every day with a non-empty note, a header naming the date and the weekday, then the
  content. For a quarter and a year: one block for every month or quarter, the header,
  then the content or the placeholder.\<close>

definition daily_block :: "filesystem \<Rightarrow> string \<Rightarrow> Time \<Rightarrow> string list" where
  "daily_block fs project day =
     (let dayName = Format_2006_01_02 day;
          content = note_text fs project CategoryDaily dayName
      in if content = [] then []
         else [rule2 @ '' '' @ dayName @ '' ('' @ Weekday_String (Weekday day) @ '') '' @ rule2 @ NL @ content])"

definition content_or_placeholder :: "string \<Rightarrow> string" where
  "content_or_placeholder content = (if content = [] then ''(no summary)'' else content)"



text \<open>For a month: one block for every week, the header naming the week, then the
  content or the placeholder.\<close>

definition weekly_block :: "filesystem \<Rightarrow> string \<Rightarrow> string \<Rightarrow> string" where
  "weekly_block fs project wk =
     rule2 @ '' '' @ wk @ '' '' @ rule2 @ NL @ content_or_placeholder (note_text fs project CategoryWeekly wk)"

text \<open>The elements of a list in the order of their first occurrence, each once; and the
  step that adds an element to a list that does not hold it yet.\<close>

fun first_occurrences :: "'a list \<Rightarrow> 'a list" where
  "first_occurrences [] = []"
| "first_occurrences (x # xs) = x # first_occurrences (filter (\<lambda>y. y \<noteq> x) xs)"

definition put_new :: "'a list \<Rightarrow> 'a \<Rightarrow> 'a list" where
  "put_new acc x = (if x \<in> set acc then acc else acc @ [x])"

text \<open>The period name of a date in a category (\<^verbatim>\<open>periodIdentifier\<close> of the
  specification), built as \<^verbatim>\<open>CheckMissingSummaries\<close> builds its keys; the word a
  category has in a label; the reminder of a category and a period; and the categories
  that have summaries, in the order of \<open>categoryOrder\<close>.\<close>

definition periodIdentifier :: "Time \<Rightarrow> Category \<Rightarrow> string" where
  "periodIdentifier t c =
     (case c of CategoryDaily \<Rightarrow> Format_2006_01_02 t | CategoryWeekly \<Rightarrow> weekName t
      | CategoryMonthly \<Rightarrow> Format_2006_01 t | CategoryQuarterly \<Rightarrow> quarterName t
      | CategoryYearly \<Rightarrow> Format_2006 t)"

definition category_word :: "Category \<Rightarrow> string" where
  "category_word c =
     (case c of CategoryDaily \<Rightarrow> ''Daily'' | CategoryWeekly \<Rightarrow> ''Weekly''
      | CategoryMonthly \<Rightarrow> ''Monthly'' | CategoryQuarterly \<Rightarrow> ''Quarterly''
      | CategoryYearly \<Rightarrow> ''Yearly'')"

definition expected_reminder :: "Category \<Rightarrow> string \<Rightarrow> Reminder" where
  "expected_reminder c name =
     \<lparr>Category = c, Name = name, Label = category_word c @ '' summary for '' @ name\<rparr>"

definition summary_categories :: "Category list" where
  "summary_categories = [CategoryWeekly, CategoryMonthly, CategoryQuarterly, CategoryYearly]"

text \<open>The keys one of the four maps ends up with, and the reminders before they are
  sorted.\<close>

definition period_keys :: "Category \<Rightarrow> Time \<Rightarrow> Time list \<Rightarrow> string list" where
  "period_keys c now dates =
     first_occurrences (filter (\<lambda>k. k \<noteq> periodIdentifier now c) (map (\<lambda>d. periodIdentifier d c) dates))"

definition unsorted_reminders ::
  "filesystem \<Rightarrow> (string list \<Rightarrow> string list) \<Rightarrow> Time \<Rightarrow> string \<Rightarrow> Time list \<Rightarrow> Reminder list" where
  "unsorted_reminders fs range_order now project dates =
     concat (map (\<lambda>c. map (expected_reminder c)
                         (filter (\<lambda>n. \<not> NoteExists fs project c n) (range_order (period_keys c now dates))))
                 summary_categories)"

text \<open>The order that \<open>reminder_less\<close> leaves when it does not put \<open>b\<close> first.\<close>

definition reminder_le :: "Reminder \<Rightarrow> Reminder \<Rightarrow> bool" where
  "reminder_le a b = (\<not> reminder_less b a)"

text \<open>A name that parses as a date, and the store without the entries of the daily
  directories whose names do not.\<close>

definition parses_as_date :: "string \<Rightarrow> bool" where
  "parses_as_date name = (case Parse_2006_01_02 name of Inl err \<Rightarrow> False | Inr d \<Rightarrow> True)"

definition without_undated :: "filesystem \<Rightarrow> filesystem" where
  "without_undated fs =
     fs\<lparr>ReadDir := (\<lambda>project category.
            if category = CategoryDaily
            then map_option (filter (\<lambda>(name, is_dir). parses_as_date (TrimSuffix name ''.md'')))
                   (ReadDir fs project category)
            else ReadDir fs project category)\<rparr>"

text \<open>A store to try the statements on. The project has four daily files: an empty
  note of 2024-12-30, notes of Monday 2025-01-13 and Wednesday 2025-01-15, and a file
  whose name is no date. Its only summary is the weekly note 2025-W02.\<close>

definition example_fs :: filesystem where
  "example_fs =
     \<lparr>MkdirAll_ok = (\<lambda>project category. True),
      ReadDir = (\<lambda>project category.
         if category = CategoryDaily
         then Some [(''2024-12-30.md'', False), (''2025-01-13.md'', False), (''2025-01-15.md'', False),
                    (''todo.md'', False)]
         else if category = CategoryWeekly then Some [(''2025-W02.md'', False)]
         else Some []),
      ReadFile = (\<lambda>project category name.
         if category = CategoryDaily \<and> name = ''2024-12-30'' then Content []
         else if category = CategoryDaily \<and> name = ''2025-01-13'' then Content ''kickoff''
         else if category = CategoryDaily \<and> name = ''2025-01-15'' then Content ''review''
         else if category = CategoryDaily \<and> name = ''todo'' then Content ''later''
         else if category = CategoryWeekly \<and> name = ''2025-W02'' then Content ''shipped''
         else NotExist),
      Stat_ok = (\<lambda>project category name.
         category = CategoryDaily
           \<and> (name = ''2024-12-30'' \<or> name = ''2025-01-13'' \<or> name = ''2025-01-15'' \<or> name = ''todo'')
         \<or> category = CategoryWeekly \<and> name = ''2025-W02'')\<rparr>"

text \<open>Three more stores: one whose directories cannot be listed, one whose daily notes
  have no date for a name, and one with the single daily note 2025-01-13.\<close>

definition failing_fs :: filesystem where
  "failing_fs = example_fs\<lparr>ReadDir := (\<lambda>project category. None)\<rparr>"

definition undated_fs :: filesystem where
  "undated_fs = example_fs\<lparr>ReadDir := (\<lambda>project category.
      Some [(''todo.md'', False), (''2025-1-3.md'', False)])\<rparr>"

definition early_fs :: filesystem where
  "early_fs =
     \<lparr>MkdirAll_ok = (\<lambda>project category. True),
      ReadDir = (\<lambda>project category.
         if category = CategoryDaily then Some [(''2025-01-13.md'', False)] else Some []),
      ReadFile = (\<lambda>project category name.
         if category = CategoryDaily \<and> name = ''2025-01-13'' then Content ''kickoff'' else NotExist),
      Stat_ok = (\<lambda>project category name. category = CategoryDaily \<and> name = ''2025-01-13'')\<rparr>"

definition example_reminders :: "Reminder list" where
  "example_reminders =
     [\<lparr>Category = CategoryWeekly, Name = ''2025-W03'', Label = ''Weekly summary for 2025-W03''\<rparr>,
      \<lparr>Category = CategoryWeekly, Name = ''2025-W01'', Label = ''Weekly summary for 2025-W01''\<rparr>,
      \<lparr>Category = CategoryMonthly, Name = ''2025-01'', Label = ''Monthly summary for 2025-01''\<rparr>,
      \<lparr>Category = CategoryMonthly, Name = ''2024-12'', Label = ''Monthly summary for 2024-12''\<rparr>,
      \<lparr>Category = CategoryQuarterly, Name = ''2025-Q1'', Label = ''Quarterly summary for 2025-Q1''\<rparr>,
      \<lparr>Category = CategoryQuarterly, Name = ''2024-Q4'', Label = ''Quarterly summary for 2024-Q4''\<rparr>,
      \<lparr>Category = CategoryYearly, Name = ''2024'', Label = ''Yearly summary for 2024''\<rparr>]"

text \<open>A location whose clock keeps one offset from UTC for all time: UTC itself, or a
  zone that never had daylight saving time.\<close>

definition constant_offset :: "Location \<Rightarrow> bool" where
  "constant_offset loc = (\<forall>s t. fst (loc s) = fst (loc t))"

text \<open>In such a location, the instant at which the clock shows 00:00:00 of the day with
  number \<open>n\<close>.\<close>

definition midnight :: "Location \<Rightarrow> Time \<Rightarrow> LocalTime" where
  "midnight loc n = n * secondsPerDay - unixToInternal - fst (loc 0)"

text \<open>The seven dates that \<^verbatim>\<open>gatherDailyForWeek\<close> reads, \<^verbatim>\<open>monday.AddDate(0, 0, i)\<close>
  for \<open>i = 0, ..., 6\<close>, as day numbers: \<^verbatim>\<open>daysOfWeek\<close> of the specification.\<close>

definition daysOfWeek :: "Location \<Rightarrow> LocalTime \<Rightarrow> Time list" where
  "daysOfWeek Local monday =
     map (\<lambda>i. local_day Local (AddDate Local monday 0 0 i)) [0, 1, 2, 3, 4, 5, 6]"

text \<open>Two locations whose clocks are put forward at midnight. America/Santiago with its
  transitions of 2024-09-08, 2025-04-06 and 2025-09-07: on the last, at 04:00:00 UTC,
  the clock goes from 24:00 of Saturday 2025-09-06 to 01:00 of the Sunday.
  America/Sao_Paulo with its transitions of 1996-10-06, 1997-02-16 and 1997-10-06: on
  the last, at 03:00:00 UTC, the clock goes from 24:00 of Sunday 1997-10-05 to 01:00 of
  the Monday.\<close>

definition America_Santiago :: Location where
  "America_Santiago sec =
     (if sec < 1725768000 then (- 14400, alpha, 1725768000)
      else if sec < 1743908400 then (- 10800, 1725768000, 1743908400)
      else if sec < 1757217600 then (- 14400, 1743908400, 1757217600)
      else (- 10800, 1757217600, omega))"

definition America_Sao_Paulo :: Location where
  "America_Sao_Paulo sec =
     (if sec < 844570800 then (- 10800, alpha, 844570800)
      else if sec < 856058400 then (- 7200, 844570800, 856058400)
      else if sec < 876106800 then (- 10800, 856058400, 876106800)
      else (- 7200, 876106800, omega))"

text \<open>A store with daily notes of Monday 2025-09-01, Saturday 2025-09-06 and Sunday
  2025-09-07, the week 2025-W36.\<close>

definition september_fs :: filesystem where
  "september_fs =
     \<lparr>MkdirAll_ok = (\<lambda>project category. True),
      ReadDir = (\<lambda>project category.
         if category = CategoryDaily
         then Some [(''2025-09-01.md'', False), (''2025-09-06.md'', False), (''2025-09-07.md'', False)]
         else Some []),
      ReadFile = (\<lambda>project category name.
         if category = CategoryDaily \<and> name = ''2025-09-01'' then Content ''plan''
         else if category = CategoryDaily \<and> name = ''2025-09-06'' then Content ''hike''
         else if category = CategoryDaily \<and> name = ''2025-09-07'' then Content ''rest''
         else NotExist),
      Stat_ok = (\<lambda>project category name.
         category = CategoryDaily
           \<and> (name = ''2025-09-01'' \<or> name = ''2025-09-06'' \<or> name = ''2025-09-07''))\<rparr>"

section \<open>Numbers within 64 bits\<close>

lemma wrap64_id: "- 9223372036854775808 \<le> x \<Longrightarrow> x \<le> 9223372036854775807 \<Longrightarrow> wrap64 x = x"
  by (simp add: wrap64_def)

section \<open>The calendar\<close>

lemma div_unique_int: "0 \<le> r \<Longrightarrow> r < c \<Longrightarrow> (c * q + r) div c = (q::int)"
  by simp

lemma div_step: 
  fixes y k :: int assumes "0 < k"
  shows "y div k = (y - 1) div k + (if y mod k = 0 then 1 else 0)"
proof (cases "y mod k = 0")
  case True
  have "y = k * (y div k)" using True by auto
  then have e: "y - 1 = k * (y div k - 1) + (k - 1)" by (simp add: algebra_simps)
  have "(y - 1) div k = y div k - 1"
    by (subst e, rule div_unique_int) (use assms in auto)
  then show ?thesis using True by simp
next
  case False
  have r1: "0 < y mod k" by (metis False assms less_le pos_mod_sign)
  have r2: "y mod k < k" using assms by (rule pos_mod_bound)
  note r = r1 r2
  have e: "y - 1 = k * (y div k) + (y mod k - 1)" by simp
  have "(y - 1) div k = y div k" 
    by (subst e, rule div_unique_int) (use r in auto)
  then show ?thesis using False by simp
qed

lemma dse_closed: "daysSinceEpoch year = 365 * (year - 1) + (year - 1) div 4 - (year - 1) div 100 + (year - 1) div 400"
proof -
  define y where "y = year - 1"
  define a where "a = y div 400"
  define r where "r = y - 400 * a"
  define b where "b = r div 100"
  define s where "s = r - 100 * b"
  define c where "c = s div 4"
  define e where "e = s - 4 * c"
  have r: "0 \<le> r" "r < 400" unfolding r_def a_def by (simp_all add: minus_mult_div_eq_mod)
  have s: "0 \<le> s" "s < 100" unfolding s_def b_def by (simp_all add: minus_mult_div_eq_mod)
  have e: "0 \<le> e" "e < 4" unfolding e_def c_def by (simp_all add: minus_mult_div_eq_mod)
  have b: "0 \<le> b" "b < 4" unfolding b_def using r by auto
  have c: "0 \<le> c" "c < 25" unfolding c_def using s by auto
  have y: "y = 400 * a + 100 * b + 4 * c + e" unfolding e_def s_def r_def by simp
  have d4: "y div 4 = 100 * a + 25 * b + c" using y e by auto
  have d100: "y div 100 = 4 * a + b" using y e c by auto
  have d400: "y div 400 = a" by (simp add: a_def)
  have "daysSinceEpoch year = 146097 * a + 36524 * b + 1461 * c + 365 * e"
    unfolding daysSinceEpoch_def Let_def y_def[symmetric] a_def[symmetric] r_def[symmetric] b_def[symmetric] s_def[symmetric] c_def[symmetric] e_def[symmetric] by simp
  then show ?thesis unfolding y_def[symmetric] d4 d100 d400 using y by simp
qed

lemma mod_chain: "(y::int) mod 400 = 0 \<Longrightarrow> y mod 100 = 0" "(y::int) mod 100 = 0 \<Longrightarrow> y mod 4 = 0"
  by auto

lemma dse_Suc: "daysSinceEpoch (y + 1) = daysSinceEpoch y + (if isLeap y then 366 else 365)"
proof -
  define p4 where "p4 = (y - 1) div 4"
  define p100 where "p100 = (y - 1) div 100"
  define p400 where "p400 = (y - 1) div 400"
  define A where "A \<longleftrightarrow> y mod 4 = 0"
  define B where "B \<longleftrightarrow> y mod 100 = 0"
  define C where "C \<longleftrightarrow> y mod 400 = 0"
  have e4: "y div 4 = p4 + (if A then 1 else 0)" unfolding p4_def A_def by (rule div_step) simp
  have e100: "y div 100 = p100 + (if B then 1 else 0)" unfolding p100_def B_def by (rule div_step) simp
  have e400: "y div 400 = p400 + (if C then 1 else 0)" unfolding p400_def C_def by (rule div_step) simp
  have ch: "C \<longrightarrow> B" "B \<longrightarrow> A" unfolding A_def B_def C_def using mod_chain[of y] by blast+
  have l: "isLeap y \<longleftrightarrow> A \<and> (\<not> B \<or> C)" unfolding isLeap_def A_def B_def C_def by (rule refl)
  have s: "daysSinceEpoch (y + 1) = 365 * y + (p4 + (if A then 1 else 0)) - (p100 + (if B then 1 else 0)) + (p400 + (if C then 1 else 0))"
    unfolding dse_closed e4[symmetric] e100[symmetric] e400[symmetric] by simp
  have t: "daysSinceEpoch y = 365 * (y - 1) + p4 - p100 + p400"
    unfolding dse_closed p4_def p100_def p400_def by (rule refl)
  show ?thesis unfolding s t l using ch by (cases A; cases B; cases C) simp_all
qed

lemma mod_zero_iff_full:
  fixes k q r :: int
  assumes "0 < r" "r \<le> k"
  shows "(k * q + r) mod k = 0 \<longleftrightarrow> r = k"
proof (cases "r = k")
  case True
  then show ?thesis by simp
next
  case False
  then have "r < k" using assms by simp
  then have "(k * q + r) mod k = r" using assms by simp
  then show ?thesis using assms False by simp
qed

lemma year_digits:
  fixes a b c e year :: int
  assumes b: "0 \<le> b" "b \<le> 3" and c: "0 \<le> c" "c \<le> 24" and e: "0 \<le> e" "e \<le> 3"
    and year: "year = 400 * a + 100 * b + 4 * c + e + 1"
  shows "daysSinceEpoch year = 146097 * a + 36524 * b + 1461 * c + 365 * e"
    and "isLeap year \<longleftrightarrow> e = 3 \<and> (c = 24 \<longrightarrow> b = 3)"
proof -
  have y4: "year - 1 = 4 * (100 * a + 25 * b + c) + e" using year by simp
  have y100: "year - 1 = 100 * (4 * a + b) + (4 * c + e)" using year by simp
  have y400: "year - 1 = 400 * a + (100 * b + 4 * c + e)" using year by simp
  have d4: "(year - 1) div 4 = 100 * a + 25 * b + c"
    by (subst y4, rule div_unique_int) (use e in auto)
  have d100: "(year - 1) div 100 = 4 * a + b"
    by (subst y100, rule div_unique_int) (use c e in auto)
  have d400: "(year - 1) div 400 = a"
    by (subst y400, rule div_unique_int) (use b c e in auto)
  show "daysSinceEpoch year = 146097 * a + 36524 * b + 1461 * c + 365 * e"
    unfolding dse_closed d4 d100 d400 using year by simp
  have z4: "year = 4 * (100 * a + 25 * b + c) + (e + 1)" using year by simp
  have z100: "year = 100 * (4 * a + b) + (4 * c + e + 1)" using year by simp
  have z400: "year = 400 * a + (100 * b + 4 * c + e + 1)" using year by simp
  have m4: "year mod 4 = 0 \<longleftrightarrow> e + 1 = 4"
    by (subst z4, rule mod_zero_iff_full) (use e in auto)
  have m100: "year mod 100 = 0 \<longleftrightarrow> 4 * c + e + 1 = 100"
    by (subst z100, rule mod_zero_iff_full) (use c e in auto)
  have m400: "year mod 400 = 0 \<longleftrightarrow> 100 * b + 4 * c + e + 1 = 400"
    by (subst z400, rule mod_zero_iff_full) (use b c e in auto)
  show "isLeap year \<longleftrightarrow> e = 3 \<and> (c = 24 \<longrightarrow> b = 3)"
    unfolding isLeap_def m4 m100 m400 using b c e by auto
qed

lemma absDate_parts:
  fixes t :: int
  defines "n400 \<equiv> t div 146097"
  defines "d1 \<equiv> t - 146097 * n400"
  defines "q100 \<equiv> d1 div 36524"
  defines "n100 \<equiv> (if q100 = 4 then 3 else q100)"
  defines "d2 \<equiv> d1 - 36524 * n100"
  defines "n4 \<equiv> d2 div 1461"
  defines "d3 \<equiv> d2 - 1461 * n4"
  defines "q1 \<equiv> d3 div 365"
  defines "n1 \<equiv> (if q1 = 4 then 3 else q1)"
  defines "d4 \<equiv> d3 - 365 * n1"
  shows "0 \<le> n100 \<and> n100 \<le> 3 \<and> 0 \<le> n4 \<and> n4 \<le> 24 \<and> 0 \<le> n1 \<and> n1 \<le> 3 \<and> 0 \<le> d4 \<and> d4 \<le> 365
     \<and> (d4 = 365 \<longrightarrow> n1 = 3 \<and> (n4 = 24 \<longrightarrow> n100 = 3))
     \<and> t = 146097 * n400 + 36524 * n100 + 1461 * n4 + 365 * n1 + d4
     \<and> Year t = 400 * n400 + 100 * n100 + 4 * n4 + n1 + 1 \<and> YearDay0 t = d4"
proof -
  have d1: "0 \<le> d1" "d1 < 146097" unfolding d1_def n400_def by (simp_all add: minus_mult_div_eq_mod)
  have q100: "0 \<le> q100" "q100 \<le> 4" unfolding q100_def using d1 by auto
  have n100: "0 \<le> n100" "n100 \<le> 3" unfolding n100_def using q100 by auto
  have d2: "0 \<le> d2" "d2 \<le> 36524" "d2 = 36524 \<longrightarrow> n100 = 3" unfolding d2_def n100_def q100_def using d1 by (auto split: if_splits)
  have n4: "0 \<le> n4" "n4 \<le> 24" "d2 = 36524 \<longrightarrow> n4 = 24" unfolding n4_def using d2 by auto
  have d3: "0 \<le> d3" "d3 \<le> 1460" unfolding d3_def n4_def using d2 by (auto simp: minus_mult_div_eq_mod)
  have d3': "n4 = 24 \<longrightarrow> d3 = 1460 \<longrightarrow> n100 = 3" unfolding d3_def n4_def using d2 by auto
  have q1: "0 \<le> q1" "q1 \<le> 4" unfolding q1_def using d3 by auto
  have n1: "0 \<le> n1" "n1 \<le> 3" unfolding n1_def using q1 by auto
  have d4: "0 \<le> d4" "d4 \<le> 365" "d4 = 365 \<longrightarrow> n1 = 3 \<and> d3 = 1460" unfolding d4_def n1_def q1_def using d3 by (auto split: if_splits)
  have t: "t = 146097 * n400 + 36524 * n100 + 1461 * n4 + 365 * n1 + d4"
    unfolding d4_def d3_def d2_def d1_def by simp
  have yy: "Year t = 400 * n400 + 100 * n100 + 4 * n4 + n1 + 1" "YearDay0 t = d4"
    unfolding Year_def YearDay0_def absDate_year_yday_def Let_def d4_def n1_def q1_def d3_def n4_def d2_def n100_def q100_def d1_def n400_def
    by simp_all
  show ?thesis using n100 n4 n1 d4 d3' t yy by auto
qed

lemma Year_YearDay0:
  shows "daysSinceEpoch (Year t) + YearDay0 t = t"
    and "0 \<le> YearDay0 t"
    and "YearDay0 t < (if isLeap (Year t) then 366 else 365)"
proof -
  define n400 where "n400 \<equiv> t div 146097"
  define d1 where "d1 \<equiv> t - 146097 * n400"
  define q100 where "q100 \<equiv> d1 div 36524"
  define n100 where "n100 \<equiv> (if q100 = 4 then 3 else q100)"
  define d2 where "d2 \<equiv> d1 - 36524 * n100"
  define n4 where "n4 \<equiv> d2 div 1461"
  define d3 where "d3 \<equiv> d2 - 1461 * n4"
  define q1 where "q1 \<equiv> d3 div 365"
  define n1 where "n1 \<equiv> (if q1 = 4 then 3 else q1)"
  define d4 where "d4 \<equiv> d3 - 365 * n1"
  note p = absDate_parts[of t, folded n400_def, folded d1_def, folded q100_def, folded n100_def, folded d2_def,
      folded n4_def, folded d3_def, folded q1_def, folded n1_def, folded d4_def]
  have b: "0 \<le> n100" "n100 \<le> 3" and c: "0 \<le> n4" "n4 \<le> 24" and e: "0 \<le> n1" "n1 \<le> 3"
    and d: "0 \<le> d4" "d4 \<le> 365" "d4 = 365 \<longrightarrow> n1 = 3 \<and> (n4 = 24 \<longrightarrow> n100 = 3)"
    and t: "t = 146097 * n400 + 36524 * n100 + 1461 * n4 + 365 * n1 + d4"
    and y: "Year t = 400 * n400 + 100 * n100 + 4 * n4 + n1 + 1" and yd: "YearDay0 t = d4"
    using p by blast+
  note yd' = year_digits[OF b c e y]
  show "daysSinceEpoch (Year t) + YearDay0 t = t" unfolding yd'(1) yd using t by simp
  show "0 \<le> YearDay0 t" unfolding yd by (rule d)
  show "YearDay0 t < (if isLeap (Year t) then 366 else 365)" unfolding yd'(2) yd using d by auto
qed

lemma dse_mono: "y \<le> y' \<Longrightarrow> daysSinceEpoch y \<le> daysSinceEpoch y'"
proof (induction y' rule: int_ge_induct)
  case base
  then show ?case by simp
next
  case (step i)
  have "daysSinceEpoch (i + 1) \<ge> daysSinceEpoch i" unfolding dse_Suc by simp
  then show ?case using step by simp
qed

lemma Year_unique:
  assumes "daysSinceEpoch y \<le> t" "t < daysSinceEpoch (y + 1)"
  shows "Year t = y" and "YearDay0 t = t - daysSinceEpoch y"
proof -
  have a: "daysSinceEpoch (Year t) \<le> t" using Year_YearDay0(1,2)[of t] by simp
  have b: "t < daysSinceEpoch (Year t + 1)" unfolding dse_Suc using Year_YearDay0(1,3)[of t] by (simp split: if_splits)
  have "\<not> y < Year t"
  proof
    assume "y < Year t"
    then have "daysSinceEpoch (y + 1) \<le> daysSinceEpoch (Year t)" by (intro dse_mono) simp
    then show False using a assms by simp
  qed
  moreover have "\<not> Year t < y"
  proof
    assume "Year t < y"
    then have "daysSinceEpoch (Year t + 1) \<le> daysSinceEpoch y" by (intro dse_mono) simp
    then show False using b assms by simp
  qed
  ultimately show "Year t = y" by simp
  then show "YearDay0 t = t - daysSinceEpoch y" using Year_YearDay0(1)[of t] by simp
qed

lemma month_estimate:
  fixes day :: int
  assumes "0 \<le> day" "day < 365"
  defines "month \<equiv> day div 31"
  defines "res \<equiv> (if day \<ge> daysBefore (month + 1) then (month + 2, day - daysBefore (month + 1) + 1)
                   else (month + 1, day - daysBefore month + 1))"
  shows "1 \<le> fst res \<and> fst res \<le> 12 \<and> 1 \<le> snd res \<and> snd res \<le> daysBefore (fst res) - daysBefore (fst res - 1)
         \<and> daysBefore (fst res - 1) + snd res - 1 = day"
proof -
  have m: "0 \<le> month" "month \<le> 11" "31 * month \<le> day" "day < 31 * month + 31"
    unfolding month_def using assms by auto
  have "month = 0 \<or> month = 1 \<or> month = 2 \<or> month = 3 \<or> month = 4 \<or> month = 5
    \<or> month = 6 \<or> month = 7 \<or> month = 8 \<or> month = 9 \<or> month = 10 \<or> month = 11"
    using m(1,2) by arith
  then consider "month = 0" | "month = 1" | "month = 2" | "month = 3" | "month = 4" | "month = 5"
    | "month = 6" | "month = 7" | "month = 8" | "month = 9" | "month = 10" | "month = 11"
    by blast
  then show ?thesis
  proof cases
    case 1 then show ?thesis using m assms(1,2) unfolding res_def by (simp add: daysBefore_def) next
    case 2 then show ?thesis using m assms(1,2) unfolding res_def by (simp add: daysBefore_def) next
    case 3 then show ?thesis using m assms(1,2) unfolding res_def by (simp add: daysBefore_def) next
    case 4 then show ?thesis using m assms(1,2) unfolding res_def by (simp add: daysBefore_def) next
    case 5 then show ?thesis using m assms(1,2) unfolding res_def by (simp add: daysBefore_def) next
    case 6 then show ?thesis using m assms(1,2) unfolding res_def by (simp add: daysBefore_def) next
    case 7 then show ?thesis using m assms(1,2) unfolding res_def by (simp add: daysBefore_def) next
    case 8 then show ?thesis using m assms(1,2) unfolding res_def by (simp add: daysBefore_def) next
    case 9 then show ?thesis using m assms(1,2) unfolding res_def by (simp add: daysBefore_def) next
    case 10 then show ?thesis using m assms(1,2) unfolding res_def by (simp add: daysBefore_def) next
    case 11 then show ?thesis using m assms(1,2) unfolding res_def by (simp add: daysBefore_def) next
    case 12 then show ?thesis using m assms(1,2) unfolding res_def by (simp add: daysBefore_def)
  qed
qed

lemma norm_month: "0 \<le> m \<Longrightarrow> m < 12 \<Longrightarrow> norm y m 12 = (y, m)"
  by (simp add: norm_def)

lemma Date_in_year: "1 \<le> m \<Longrightarrow> m \<le> 12 \<Longrightarrow> Date y m d = daysSinceEpoch y + cumDays y m + d - 1"
  by (auto simp add: Date_def norm_month cumDays_def Let_def)

lemma month_cases:
  fixes m :: int
  assumes "1 \<le> m" "m \<le> 12"
  obtains "m = 1" | "m = 2" | "m = 3" | "m = 4" | "m = 5" | "m = 6" | "m = 7" | "m = 8" | "m = 9"
    | "m = 10" | "m = 11" | "m = 12"
proof -
  have "m = 1 \<or> m = 2 \<or> m = 3 \<or> m = 4 \<or> m = 5 \<or> m = 6 \<or> m = 7 \<or> m = 8 \<or> m = 9
     \<or> m = 10 \<or> m = 11 \<or> m = 12" using assms by arith
  then show thesis using that by blast
qed

lemma cumDays_next: "1 \<le> m \<Longrightarrow> m \<le> 12 \<Longrightarrow> cumDays y (m + 1) = cumDays y m + daysIn m y"
  by (erule (1) month_cases) (simp_all add: cumDays_def daysIn_def daysBefore_def)

lemma cumDays_13: "cumDays y 13 = (if isLeap y then 366 else 365)"
  by (simp add: cumDays_def daysBefore_def)

lemma cumDays_1: "cumDays y 1 = 0"
  by (simp add: cumDays_def daysBefore_def)

lemma daysIn_pos: "1 \<le> m \<Longrightarrow> m \<le> 12 \<Longrightarrow> 28 \<le> daysIn m y \<and> daysIn m y \<le> 31"
  by (erule (1) month_cases) (simp_all add: daysIn_def daysBefore_def)

lemma cumDays_mono_aux: "m \<le> m' \<Longrightarrow> 1 \<le> m \<longrightarrow> m' \<le> 13 \<longrightarrow> cumDays y m \<le> cumDays y m'"
proof (induction m' rule: int_ge_induct)
  case base
  then show ?case by simp
next
  case (step i)
  show ?case
  proof (intro impI)
    assume a: "1 \<le> m" "i + 1 \<le> 13"
    then have "cumDays y (i + 1) = cumDays y i + daysIn i y" using step by (intro cumDays_next) simp_all
    moreover have "28 \<le> daysIn i y" using daysIn_pos[of i y] step a by simp
    ultimately show "cumDays y m \<le> cumDays y (i + 1)" using step a by simp
  qed
qed

lemma cumDays_mono: "1 \<le> m \<Longrightarrow> m \<le> m' \<Longrightarrow> m' \<le> 13 \<Longrightarrow> cumDays y m \<le> cumDays y m'"
  using cumDays_mono_aux by blast

lemma month_day_unique:
  assumes m: "1 \<le> m" "m \<le> 12" and d: "1 \<le> d" "d \<le> daysIn m y"
    and m': "1 \<le> m'" "m' \<le> 12" and d': "1 \<le> d'" "d' \<le> daysIn m' y"
    and eq: "cumDays y m + d = cumDays y m' + d'"
  shows "m = m' \<and> d = d'"
proof -
  have "\<not> m < m'"
  proof
    assume "m < m'"
    then have "cumDays y (m + 1) \<le> cumDays y m'" using m m' by (intro cumDays_mono) simp_all
    then show False using eq d d' cumDays_next[OF m, of y] by simp
  qed
  moreover have "\<not> m' < m"
  proof
    assume "m' < m"
    then have "cumDays y (m' + 1) \<le> cumDays y m" using m m' by (intro cumDays_mono) simp_all
    then show False using eq d d' cumDays_next[OF m', of y] by simp
  qed
  ultimately have "m = m'" by simp
  then show ?thesis using eq by simp
qed

lemma Month_Day:
  shows "1 \<le> Month t" "Month t \<le> 12" "1 \<le> Day t" "Day t \<le> daysIn (Month t) (Year t)"
    and "cumDays (Year t) (Month t) + Day t - 1 = YearDay0 t"
proof -
  define L where "L = isLeap (Year t)"
  define yd where "yd = YearDay0 t"
  have yd: "0 \<le> yd" "yd < (if L then 366 else 365)" unfolding yd_def L_def using Year_YearDay0(2,3) by simp_all
  have goal: "1 \<le> Month t \<and> Month t \<le> 12 \<and> 1 \<le> Day t \<and> Day t \<le> daysIn (Month t) (Year t)
     \<and> cumDays (Year t) (Month t) + Day t - 1 = YearDay0 t"
  proof (cases "L \<and> yd = 59")
    case True
    then have "absDate_month_day t = (2, 29)" unfolding absDate_month_day_def L_def yd_def by simp
    then show ?thesis using True unfolding Month_def Day_def L_def yd_def
      by (simp add: daysIn_def cumDays_def daysBefore_def)
  next
    case False
    define day where "day = (if L \<and> yd > 59 then yd - 1 else yd)"
    define month where "month = day div 31"
    define res where "res = (if day \<ge> daysBefore (month + 1) then (month + 2, day - daysBefore (month + 1) + 1)
                   else (month + 1, day - daysBefore month + 1))"
    have day: "0 \<le> day" "day < 365" unfolding day_def using yd False by (auto split: if_splits)
    have r: "absDate_month_day t = res"
      unfolding absDate_month_day_def L_def[symmetric] yd_def[symmetric] Let_def res_def month_def day_def
      using False by auto
    note e = month_estimate[OF day, folded month_def, folded res_def]
    have m: "1 \<le> fst res" "fst res \<le> 12" and d: "1 \<le> snd res"
      "snd res \<le> daysBefore (fst res) - daysBefore (fst res - 1)"
      and s: "daysBefore (fst res - 1) + snd res - 1 = day" using e by blast+
    have lt: "day < daysBefore (fst res)" using d s by simp
    have ge: "daysBefore (fst res - 1) \<le> day" using d s by simp
    have three: "L \<and> yd > 59 \<longrightarrow> 3 \<le> fst res"
      using lt m unfolding day_def by (auto simp: daysBefore_def split: if_splits)
    have two: "\<not> (L \<and> yd > 59) \<longrightarrow> L \<longrightarrow> fst res \<le> 2"
      using ge m False unfolding day_def by (auto simp: daysBefore_def split: if_splits)
    have dim: "snd res \<le> daysIn (fst res) (Year t)" using d by (auto simp: daysIn_def daysBefore_def)
    have cum: "cumDays (Year t) (fst res) + snd res - 1 = yd"
      using s three two unfolding cumDays_def L_def[symmetric] day_def by (auto split: if_splits)
    show ?thesis unfolding Month_def Day_def r using m d dim cum yd_def by simp
  qed
  show "1 \<le> Month t" "Month t \<le> 12" "1 \<le> Day t" "Day t \<le> daysIn (Month t) (Year t)"
    and "cumDays (Year t) (Month t) + Day t - 1 = YearDay0 t" using goal by blast+
qed

lemma Date_of_parts: "Date (Year t) (Month t) (Day t + k) = t + k"
  using Month_Day[of t] Year_YearDay0(1)[of t] by (simp add: Date_in_year)

lemma parts_of_Date:
  assumes m: "1 \<le> m" "m \<le> 12" and d: "1 \<le> d" "d \<le> daysIn m y"
  shows "Year (Date y m d) = y" "Month (Date y m d) = m" "Day (Date y m d) = d"
proof -
  define t where "t = Date y m d"
  have t: "t = daysSinceEpoch y + cumDays y m + d - 1" unfolding t_def using m by (rule Date_in_year)
  have "cumDays y 1 \<le> cumDays y m" using m by (intro cumDays_mono) simp_all
  then have lo: "daysSinceEpoch y \<le> t" using t d by (simp add: cumDays_1)
  have "cumDays y (m + 1) \<le> cumDays y 13" using m by (intro cumDays_mono) simp_all
  then have hi: "t < daysSinceEpoch (y + 1)" unfolding dse_Suc t using d cumDays_next[OF m, of y]
    by (simp add: cumDays_13)
  have Y: "Year t = y" and yd: "YearDay0 t = t - daysSinceEpoch y" using Year_unique[OF lo hi] by simp_all
  have "cumDays y (Month t) + Day t = cumDays y m + d" using Month_Day(5)[of t] yd t Y by simp
  then have "Month t = m \<and> Day t = d" using Month_Day(1-4)[of t] m d Y by (intro month_day_unique[of _ _ y]) simp_all
  then show "Year (Date y m d) = y" "Month (Date y m d) = m" "Day (Date y m d) = d" using Y t_def by simp_all
qed

section \<open>Decimal output read back by \<^verbatim>\<open>Sscanf\<close>\<close>

lemma of_char_digit_char: "d < 10 \<Longrightarrow> (of_char (digit_char d) :: nat) = 48 + d"
  by (simp add: digit_char_def)

lemma digit_val_digit_char: "d < 10 \<Longrightarrow> digit_val (digit_char d) = d"
  by (simp add: digit_val_def of_char_digit_char)

lemma isNumberChar_digit_char: "d < 10 \<Longrightarrow> isNumberChar (digit_char d)"
  by (simp add: isNumberChar_def of_char_digit_char)

lemma digit_char_neq:
  assumes "d < 10" "(of_char c :: nat) < 48 \<or> 57 < (of_char c :: nat)"
  shows "digit_char d \<noteq> c"
proof
  assume "digit_char d = c"
  then have "(of_char (digit_char d) :: nat) = of_char c" by simp
  then show False using assms by (simp add: of_char_digit_char)
qed

lemma digit_char_0: "digit_char 0 = CHR ''0''"
proof -
  have "char_of (of_char (CHR ''0'') :: nat) = CHR ''0''" by (rule char_of_char)
  then show ?thesis by (simp add: digit_char_def)
qed

lemma digits_nonempty: "digits n \<noteq> []"
  by (subst digits.simps) simp

lemma digits_all: "c \<in> set (digits n) \<Longrightarrow> \<exists>d < 10. c = digit_char d"
proof (induction n arbitrary: c rule: digits.induct)
  case (1 n)
  show ?case
  proof (cases "n < 10")
    case True
    then show ?thesis using "1.prems" by (subst (asm) digits.simps) auto
  next
    case False
    then have "c \<in> set (digits (n div 10)) \<or> c = digit_char (n mod 10)"
      using "1.prems" by (subst (asm) digits.simps) auto
    then show ?thesis
    proof
      assume "c \<in> set (digits (n div 10))"
      then show ?thesis using "1.IH" False by simp
    next
      assume "c = digit_char (n mod 10)"
      moreover have "n mod 10 < 10" by simp
      ultimately show ?thesis by blast
    qed
  qed
qed

lemma digits_val_snoc: "digits_val (s @ [c]) = digits_val s * 10 + digit_val c"
  by (simp add: digits_val_def)

lemma digits_val_digits: "digits_val (digits n) = n"
proof (induction n rule: digits.induct)
  case (1 n)
  show ?case
  proof (cases "n < 10")
    case True
    then show ?thesis by (subst digits.simps) (simp add: digits_val_def digit_val_digit_char)
  next
    case False
    then have "digits_val (digits n) = digits_val (digits (n div 10)) * 10 + digit_val (digit_char (n mod 10))"
      by (subst digits.simps) (simp add: digits_val_snoc)
    then show ?thesis using "1.IH" False by (simp add: digit_val_digit_char)
  qed
qed

lemma digits_val_zero_pad: "digits_val (zero_pad w s) = digits_val s"
proof -
  have "foldl (\<lambda>acc c. acc * 10 + digit_val c) 0 (replicate k (CHR ''0'')) = 0" for k
    by (induction k) (simp_all add: digit_val_def)
  then show ?thesis by (simp add: zero_pad_def digits_val_def)
qed

lemma zero_pad_digits_all: "c \<in> set (zero_pad w (digits n)) \<Longrightarrow> \<exists>d < 10. c = digit_char d"
proof -
  assume "c \<in> set (zero_pad w (digits n))"
  then have "c = CHR ''0'' \<or> c \<in> set (digits n)" by (auto simp: zero_pad_def)
  moreover have "CHR ''0'' = digit_char 0" by (simp add: digit_char_0)
  moreover have "(0::nat) < 10" by simp
  ultimately show ?thesis using digits_all by blast
qed

lemma zero_pad_nonempty: "s \<noteq> [] \<Longrightarrow> zero_pad w s \<noteq> []"
  by (simp add: zero_pad_def)

lemma takeWhile_number:
  assumes "\<forall>c \<in> set ds. \<exists>d < 10. c = digit_char d" "stops_number rest"
  shows "takeWhile isNumberChar (ds @ rest) = ds" "dropWhile isNumberChar (ds @ rest) = rest"
proof -
  have a: "\<forall>c \<in> set ds. isNumberChar c"
  proof
    fix c assume "c \<in> set ds"
    then obtain d where "d < 10" "c = digit_char d" using assms(1) by auto
    then show "isNumberChar c" by (simp add: isNumberChar_digit_char)
  qed
  have r1: "takeWhile isNumberChar rest = []"
    using assms(2) by (cases rest) (simp_all add: stops_number_def)
  have r2: "dropWhile isNumberChar rest = rest"
    using assms(2) by (cases rest) (simp_all add: stops_number_def)
  note r = r1 r2
  show "takeWhile isNumberChar (ds @ rest) = ds" using a r by (simp add: takeWhile_append2)
  show "dropWhile isNumberChar (ds @ rest) = rest" using a r by (simp add: dropWhile_append2)
qed

lemma space_width_digit: "d < 10 \<Longrightarrow> space_width (digit_char d # s) = 0"
  by (simp add: space_width_def of_char_digit_char split: list.splits)

lemma SkipSpace_digit: "d < 10 \<Longrightarrow> SkipSpace (digit_char d # s) = Inr (digit_char d # s)"
  by (subst SkipSpace.simps) (simp add: space_width_digit digit_char_neq)

lemma SkipSpace_minus: "SkipSpace (CHR ''-'' # s) = Inr (CHR ''-'' # s)"
  by (subst SkipSpace.simps) (simp add: space_width_def split: list.splits)

lemma all_digits_digits: "all_digits (digits n)"
  unfolding all_digits_def by (intro ballI digits_all)

lemma all_digits_zero_pad: "all_digits (zero_pad w (digits n))"
  unfolding all_digits_def by (intro ballI zero_pad_digits_all)

lemma scanInt_digits:
  assumes ds: "ds \<noteq> []" "all_digits ds" and rest: "stops_number rest"
    and range: "int (digits_val ds) \<le> 9223372036854775807"
  shows "scanInt (ds @ rest) = Inr (int (digits_val ds), rest)"
proof -
  obtain c cs where ds': "ds = c # cs" using ds(1) by (cases ds) auto
  then obtain d where d: "d < 10" "c = digit_char d" using ds(2) unfolding all_digits_def by auto
  have sk: "SkipSpace (ds @ rest) = Inr (ds @ rest)" unfolding ds' using d SkipSpace_digit by simp
  have hd: "hd (ds @ rest) \<noteq> CHR ''-''" "hd (ds @ rest) \<noteq> CHR ''+''"
    using d unfolding ds' by (simp_all add: digit_char_neq)
  have ne: "ds @ rest \<noteq> []" using ds(1) by simp
  note tw = takeWhile_number[OF ds(2)[unfolded all_digits_def] rest]
  show ?thesis
    unfolding scanInt_def sk using hd ds(1) range ne
    by (simp add: Let_def tw)
qed

lemma scanInt_neg_digits:
  assumes ds: "ds \<noteq> []" "all_digits ds" and rest: "stops_number rest"
    and range: "int (digits_val ds) \<le> 9223372036854775808"
  shows "scanInt (CHR ''-'' # ds @ rest) = Inr (- int (digits_val ds), rest)"
proof -
  note tw = takeWhile_number[OF ds(2)[unfolded all_digits_def] rest]
  show ?thesis
    unfolding scanInt_def SkipSpace_minus using ds(1) range
    by (simp add: Let_def tw)
qed

lemma scanInt_fmt_d:
  assumes "- 9223372036854775808 \<le> x" "x \<le> 9223372036854775807" "stops_number rest"
  shows "scanInt (fmt_d x @ rest) = Inr (x, rest)"
proof (cases "x < 0")
  case True
  have "scanInt (CHR ''-'' # digits (nat (- x)) @ rest) = Inr (- int (digits_val (digits (nat (- x)))), rest)"
    using assms True by (intro scanInt_neg_digits digits_nonempty all_digits_digits) (simp_all add: digits_val_digits)
  then show ?thesis unfolding fmt_d_def using True by (simp add: digits_val_digits)
next
  case False
  have "scanInt (digits (nat x) @ rest) = Inr (int (digits_val (digits (nat x))), rest)"
    using assms False by (intro scanInt_digits digits_nonempty all_digits_digits) (simp_all add: digits_val_digits)
  then show ?thesis unfolding fmt_d_def using False by (simp add: digits_val_digits)
qed

lemma scanInt_fmt_02d:
  assumes "0 \<le> x" "x \<le> 9223372036854775807" "stops_number rest"
  shows "scanInt (fmt_02d x @ rest) = Inr (x, rest)"
proof -
  have "scanInt (zero_pad 2 (digits (nat x)) @ rest) = Inr (int (digits_val (zero_pad 2 (digits (nat x)))), rest)"
    using assms by (intro scanInt_digits zero_pad_nonempty digits_nonempty all_digits_zero_pad)
      (simp_all add: digits_val_digits digits_val_zero_pad)
  then show ?thesis unfolding fmt_02d_def using assms(1) by (simp add: digits_val_digits digits_val_zero_pad)
qed

lemma Sscanf_Sprintf_d_lit_02d:
  assumes x: "- 9223372036854775808 \<le> x" "x \<le> 9223372036854775807"
    and w: "0 \<le> w" "w \<le> 9223372036854775807"
    and lit: "lit \<noteq> []" "\<not> isNumberChar (hd lit)"
  shows "Sscanf_d_lit_d lit (fmt_d x @ lit @ fmt_02d w) = Inr (x, w)"
proof -
  have 1: "scanInt (fmt_d x @ lit @ fmt_02d w) = Inr (x, lit @ fmt_02d w)"
    using x lit by (intro scanInt_fmt_d) (simp_all add: stops_number_def)
  have 2: "scanInt (fmt_02d w) = Inr (w, [])"
    using scanInt_fmt_02d[OF w, of "[]"] by (simp add: stops_number_def)
  show ?thesis unfolding Sscanf_d_lit_d_def 1 by (simp add: match_literal_def 2)
qed

section \<open>The ISO week of a day and its Monday\<close>

lemma Year_bounds:
  assumes "- 100000000000010 \<le> t" "t \<le> 100000000000010"
  shows "- 9223372036854775808 \<le> Year t" "Year t \<le> 9223372036854775807"
proof -
  define n400 where "n400 \<equiv> t div 146097"
  define d1 where "d1 \<equiv> t - 146097 * n400"
  define q100 where "q100 \<equiv> d1 div 36524"
  define n100 where "n100 \<equiv> (if q100 = 4 then 3 else q100)"
  define d2 where "d2 \<equiv> d1 - 36524 * n100"
  define n4 where "n4 \<equiv> d2 div 1461"
  define d3 where "d3 \<equiv> d2 - 1461 * n4"
  define q1 where "q1 \<equiv> d3 div 365"
  define n1 where "n1 \<equiv> (if q1 = 4 then 3 else q1)"
  define d4 where "d4 \<equiv> d3 - 365 * n1"
  note p = absDate_parts[of t, folded n400_def, folded d1_def, folded q100_def, folded n100_def, folded d2_def,
      folded n4_def, folded d3_def, folded q1_def, folded n1_def, folded d4_def]
  have b: "0 \<le> n100" "n100 \<le> 3" and c: "0 \<le> n4" "n4 \<le> 24" and e: "0 \<le> n1" "n1 \<le> 3"
    and d: "0 \<le> d4" "d4 \<le> 365"
    and t: "t = 146097 * n400 + 36524 * n100 + 1461 * n4 + 365 * n1 + d4"
    and y: "Year t = 400 * n400 + 100 * n100 + 4 * n4 + n1 + 1"
    using p by blast+
  have lo: "- 100000000000010 \<le> 146097 * n400 + 146097" using t b c e d assms by linarith
  have hi: "146097 * n400 \<le> 100000000000010" using t b c e d assms by linarith
  show "- 9223372036854775808 \<le> Year t" unfolding y using lo b c e by linarith
  show "Year t \<le> 9223372036854775807" unfolding y using hi b c e by linarith
qed

lemma thursday_of_week:
  fixes t :: int
  defines "d0 \<equiv> 4 - Weekday t"
  defines "d \<equiv> (if d0 = 4 then - 3 else d0)"
  shows "Weekday (t + d) = 4" "- 3 \<le> d" "d \<le> 3"
  unfolding d_def d0_def Weekday_def by presburger+

lemma monday_arith:
  fixes s yd :: int
  assumes "(s + yd + 1) mod 7 = 4"
  defines "w0 \<equiv> (s + 3 + 1) mod 7"
  defines "w \<equiv> (if w0 = 0 then 7 else w0)"
  shows "s + 3 + - (w - 1) + (yd div 7 + 1 - 1) * 7 = s + yd - 3"
  using assms(1) unfolding w_def w0_def by presburger

lemma ISOWeek_eq:
  fixes t :: int
  defines "d0 \<equiv> 4 - Weekday t"
  defines "d \<equiv> (if d0 = 4 then - 3 else d0)"
  shows "ISOWeek t = (Year (t + d), YearDay0 (t + d) div 7 + 1)"
  unfolding ISOWeek_def Let_def d_def d0_def by simp

section \<open>Canonical week names\<close>

lemma digit_char_of_char:
  assumes "48 \<le> (of_char c :: nat)" "(of_char c :: nat) \<le> 57"
  shows "of_char c - 48 < (10 :: nat)" "c = digit_char (of_char c - 48)"
proof -
  show "of_char c - 48 < (10 :: nat)" using assms by simp
  have "char_of (of_char c :: nat) = c" by (rule char_of_char)
  then show "c = digit_char (of_char c - 48)" using assms by (simp add: digit_char_def)
qed

lemma all_digits_iff: "all_digits ds \<longleftrightarrow> digit_chars ds"
proof
  assume a: "all_digits ds"
  show "digit_chars ds" unfolding digit_chars_def list_all_iff
  proof
    fix c assume "c \<in> set ds"
    then obtain d where "d < 10" "c = digit_char d" using a unfolding all_digits_def by blast
    then show "48 \<le> (of_char c :: nat) \<and> (of_char c :: nat) \<le> 57" by (simp add: of_char_digit_char)
  qed
next
  assume a: "digit_chars ds"
  show "all_digits ds" unfolding all_digits_def
  proof
    fix c assume "c \<in> set ds"
    then have "48 \<le> (of_char c :: nat)" "(of_char c :: nat) \<le> 57"
      using a by (auto simp: digit_chars_def list_all_iff)
    then show "\<exists>d<10. c = digit_char d" using digit_char_of_char by blast
  qed
qed

lemma all_digits_snoc: "all_digits (ds @ [c]) \<longleftrightarrow> all_digits ds \<and> (\<exists>d < 10. c = digit_char d)"
  by (auto simp add: all_digits_def)

lemma digits_val_bound: "all_digits ds \<Longrightarrow> digits_val ds < 10 ^ length ds"
proof (induction ds rule: rev_induct)
  case Nil
  then show ?case by (simp add: digits_val_def)
next
  case (snoc c ds)
  then obtain d where d: "d < 10" "c = digit_char d" and a: "all_digits ds"
    using all_digits_snoc by blast
  have "digits_val ds < 10 ^ length ds" using snoc.IH a by simp
  then have "digits_val ds * 10 + d < 10 ^ length ds * 10" using d(1) by simp
  then show ?case using d by (simp add: digits_val_snoc digit_val_digit_char)
qed

lemma Sscanf_digits_lit_digits:
  assumes a: "all_digits as" "as \<noteq> []" "length as \<le> 18"
    and b: "all_digits bs" "bs \<noteq> []" "length bs \<le> 18"
    and lit: "lit \<noteq> []" "\<not> isNumberChar (hd lit)"
  shows "Sscanf_d_lit_d lit (as @ lit @ bs) = Inr (int (digits_val as), int (digits_val bs))"
proof -
  have pw: "(10::nat) ^ n \<le> 10 ^ 18" if "n \<le> 18" for n using that by (intro power_increasing) simp_all
  have ra: "int (digits_val as) \<le> 9223372036854775807"
    using digits_val_bound[OF a(1)] pw[OF a(3)] by simp
  have rb: "int (digits_val bs) \<le> 9223372036854775807"
    using digits_val_bound[OF b(1)] pw[OF b(3)] by simp
  have 1: "scanInt (as @ lit @ bs) = Inr (int (digits_val as), lit @ bs)"
    using a ra lit by (intro scanInt_digits) (simp_all add: stops_number_def)
  have 2: "scanInt (bs @ []) = Inr (int (digits_val bs), [])"
    using b rb by (intro scanInt_digits) (simp_all add: stops_number_def)
  show ?thesis unfolding Sscanf_d_lit_d_def 1 using 2 by (simp add: match_literal_def)
qed

lemma is_YYYY_Www_split:
  assumes "is_YYYY_Www name"
  shows "name = take 4 name @ ''-W'' @ drop 6 name" "all_digits (take 4 name)" "all_digits (drop 6 name)"
    "length (take 4 name) = 4" "length (drop 6 name) = 2"
proof -
  have len: "length name = 8" and mid: "take 2 (drop 4 name) = ''-W''"
    using assms by (simp_all add: is_YYYY_Www_def)
  have a: "take 2 (drop 4 name) @ drop 2 (drop 4 name) = drop 4 name" by (rule append_take_drop_id)
  have b: "drop 2 (drop 4 name) = drop 6 name" by simp
  have "take 4 name @ ''-W'' @ drop 6 name = take 4 name @ drop 4 name"
    using a unfolding mid b by simp
  then show "name = take 4 name @ ''-W'' @ drop 6 name" by simp
  show "all_digits (take 4 name)" "all_digits (drop 6 name)"
    using assms by (simp_all add: is_YYYY_Www_def all_digits_iff)
  show "length (take 4 name) = 4" "length (drop 6 name) = 2" using len by simp_all
qed

section \<open>What the gather loops return\<close>

lemma ReadNote_ok: "reads_ok fs project category \<Longrightarrow>
    ReadNote fs project category name = Inr (note_text fs project category name)"
  unfolding reads_ok_def ReadNote_def note_text_def
  by (cases "ReadFile fs project category name") auto

lemma summary_block_eq: "summary_block header content = header @ NL @ content_or_placeholder content"
  by (simp add: summary_block_def content_or_placeholder_def)









section \<open>Times in a location that keeps one offset\<close>

lemma constant_offsetD: "constant_offset loc \<Longrightarrow> fst (loc s) = fst (loc 0)"
  unfolding constant_offset_def by blast

lemma Date_loc_midnight:
  assumes "constant_offset loc"
  shows "Date_loc y m d 0 0 0 loc = midnight loc (Date y m d)"
proof -
  define off where "off = fst (loc 0)"
  define unix where "unix = Date y m d * secondsPerDay - unixToInternal"
  have off: "fst (loc s) = off" for s unfolding off_def using assms by (rule constant_offsetD)
  obtain offset start end' where l: "loc unix = (offset, start, end')" by (cases "loc unix") auto
  have o: "offset = off" using off[of unix] l by simp
  have n: "norm 0 0 60 = (0, 0)" "norm d 0 24 = (d, 0)" by (simp_all add: norm_def)
  have "Date_loc y m d 0 0 0 loc = unix - off"
    by (simp add: Date_loc_def n Let_def unix_def[symmetric] l o off)
  then show ?thesis by (simp add: midnight_def unix_def off_def)
qed

lemma abs_time_midnight:
  assumes "constant_offset loc"
  shows "abs_time loc (midnight loc n) = n * secondsPerDay"
proof -
  define off where "off = fst (loc 0)"
  have off: "fst (loc s) = off" for s unfolding off_def using assms by (rule constant_offsetD)
  show ?thesis unfolding abs_time_def off by (simp add: midnight_def off_def)
qed

lemma local_day_midnight: "constant_offset loc \<Longrightarrow> local_day loc (midnight loc n) = n"
  by (simp add: local_day_def abs_time_midnight secondsPerDay_def)

lemma Clock_midnight: "constant_offset loc \<Longrightarrow> Clock loc (midnight loc n) = (0, 0, 0)"
  by (simp add: Clock_def abs_time_midnight secondsPerDay_def)

lemma Year_int64:
  assumes "- 1000000000000000 \<le> t" "t \<le> 1000000000000000"
  shows "- 9223372036854775808 \<le> Year t" "Year t \<le> 9223372036854775807"
proof -
  define n400 where "n400 \<equiv> t div 146097"
  define d1 where "d1 \<equiv> t - 146097 * n400"
  define q100 where "q100 \<equiv> d1 div 36524"
  define n100 where "n100 \<equiv> (if q100 = 4 then 3 else q100)"
  define d2 where "d2 \<equiv> d1 - 36524 * n100"
  define n4 where "n4 \<equiv> d2 div 1461"
  define d3 where "d3 \<equiv> d2 - 1461 * n4"
  define q1 where "q1 \<equiv> d3 div 365"
  define n1 where "n1 \<equiv> (if q1 = 4 then 3 else q1)"
  define d4 where "d4 \<equiv> d3 - 365 * n1"
  note p = absDate_parts[of t, folded n400_def, folded d1_def, folded q100_def, folded n100_def, folded d2_def,
      folded n4_def, folded d3_def, folded q1_def, folded n1_def, folded d4_def]
  have b: "0 \<le> n100" "n100 \<le> 3" and c: "0 \<le> n4" "n4 \<le> 24" and e: "0 \<le> n1" "n1 \<le> 3"
    and d: "0 \<le> d4" "d4 \<le> 365"
    and t: "t = 146097 * n400 + 36524 * n100 + 1461 * n4 + 365 * n1 + d4"
    and y: "Year t = 400 * n400 + 100 * n100 + 4 * n4 + n1 + 1"
    using p by blast+
  have lo: "- 1000000000000000 \<le> 146097 * n400 + 146097" using t b c e d assms by linarith
  have hi: "146097 * n400 \<le> 1000000000000000" using t b c e d assms by linarith
  show "- 9223372036854775808 \<le> Year t" unfolding y using lo b c e by linarith
  show "Year t \<le> 9223372036854775807" unfolding y using hi b c e by linarith
qed

lemma AddDate_midnight:
  assumes c: "constant_offset loc"
    and n: "- 1000000000000000 \<le> n" "n \<le> 1000000000000000"
    and k: "- 1000000000000000 \<le> k" "k \<le> 1000000000000000"
  shows "AddDate loc (midnight loc n) 0 0 k = midnight loc (n + k)"
proof -
  have y: "wrap64 (Year n) = Year n" using Year_int64[OF n] by (intro wrap64_id)
  have m: "wrap64 (Month n) = Month n" using Month_Day(1,2)[of n] by (intro wrap64_id) simp_all
  have "Day n \<le> 31" using Month_Day(1,2,4)[of n] daysIn_pos[of "Month n" "Year n"] by simp
  then have d: "wrap64 (Day n + k) = Day n + k" using Month_Day(3)[of n] k by (intro wrap64_id) simp_all
  show ?thesis
    unfolding AddDate_def
    by (simp add: local_day_midnight[OF c] Clock_midnight[OF c] y m d Date_loc_midnight[OF c] Date_of_parts)
qed

lemma mondayOfISOWeek_scan:
  assumes c: "constant_offset Local"
    and scan: "Sscanf_d_lit_d ''-W'' name = Inr (year, week)"
    and s: "- 900000000000000 \<le> daysSinceEpoch year" "daysSinceEpoch year \<le> 900000000000000"
    and w: "- 1000000000000 \<le> week" "week \<le> 1000000000000"
  shows "mondayOfISOWeek Local name
           = Inr (midnight Local
                (daysSinceEpoch year + 3 - ((if (daysSinceEpoch year + 4) mod 7 = 0 then 7
                                              else (daysSinceEpoch year + 4) mod 7) - 1) + (week - 1) * 7))"
proof -
  define s where "s = daysSinceEpoch year"
  define wd where "wd = (if (s + 4) mod 7 = 0 then 7 else (s + 4) mod 7)"
  define jan4 where "jan4 = Date_loc year 1 4 0 0 0 Local"
  define weekday where
    "weekday = (if Weekday (local_day Local jan4) = 0 then 7 else Weekday (local_day Local jan4))"
  define mondayWeek1 where "mondayWeek1 = AddDate Local jan4 0 0 (- (weekday - 1))"
  define monday where "monday = AddDate Local mondayWeek1 0 0 (wrap64 ((week - 1) * 7))"
  have wd: "1 \<le> wd" "wd \<le> 7" unfolding wd_def by auto
  have jan4: "jan4 = midnight Local (s + 3)"
    unfolding jan4_def by (simp add: Date_loc_midnight[OF c] Date_in_year cumDays_1 s_def add.commute)
  have weekday: "weekday = wd"
    unfolding weekday_def jan4 local_day_midnight[OF c] wd_def Weekday_def by (simp add: add.commute)
  have "mondayWeek1 = AddDate Local (midnight Local (s + 3)) 0 0 (- (wd - 1))"
    unfolding mondayWeek1_def jan4 weekday ..
  also have "\<dots> = midnight Local (s + 3 + - (wd - 1))"
    using s wd unfolding s_def[symmetric] by (intro AddDate_midnight[OF c]) simp_all
  finally have mondayWeek1: "mondayWeek1 = midnight Local (s + 3 + - (wd - 1))" .
  have k: "wrap64 ((week - 1) * 7) = (week - 1) * 7" using w by (intro wrap64_id) simp_all
  have "monday = AddDate Local (midnight Local (s + 3 + - (wd - 1))) 0 0 ((week - 1) * 7)"
    unfolding monday_def mondayWeek1 k ..
  also have "\<dots> = midnight Local (s + 3 + - (wd - 1) + (week - 1) * 7)"
    using s wd w unfolding s_def[symmetric] by (intro AddDate_midnight[OF c]) simp_all
  finally have monday: "monday = midnight Local (s + 3 - (wd - 1) + (week - 1) * 7)" by simp
  have "mondayOfISOWeek Local name = Inr monday"
    unfolding mondayOfISOWeek_def scan
    by (simp add: Let_def monday_def mondayWeek1_def weekday_def jan4_def)
  then show ?thesis unfolding monday wd_def s_def .
qed


lemma mondayOfISOWeek_weekName:
  assumes c: "constant_offset Local" and D: "Time_in_range D"
  shows "\<exists>m. mondayOfISOWeek Local (weekName D) = Inr (midnight Local m) \<and> Weekday m = 1
           \<and> m \<le> D \<and> D \<le> m + 6"
proof -
  define d0 where "d0 = 4 - Weekday D"
  define d where "d = (if d0 = 4 then - 3 else d0)"
  define th where "th = D + d"
  define wy where "wy = Year th"
  define yd where "yd = YearDay0 th"
  define wn where "wn = yd div 7 + 1"
  define s where "s = daysSinceEpoch wy"
  have iso: "ISOWeek D = (wy, wn)"
    unfolding wy_def wn_def yd_def th_def d_def d0_def by (rule ISOWeek_eq)
  have th: "Weekday th = 4" and d: "- 3 \<le> d" "d \<le> 3"
    unfolding th_def d_def d0_def by (rule thursday_of_week)+
  have range: "- 100000000000010 \<le> th" "th \<le> 100000000000010"
    using D d unfolding Time_in_range_def th_def by simp_all
  have wy: "- 9223372036854775808 \<le> wy" "wy \<le> 9223372036854775807"
    unfolding wy_def using Year_bounds[OF range] by simp_all
  have yd: "0 \<le> yd" "yd < 366" and sum: "s + yd = th"
    unfolding yd_def s_def wy_def using Year_YearDay0[of th] by (simp_all split: if_splits)
  have wn: "0 \<le> wn" "wn \<le> 53" unfolding wn_def using yd by simp_all
  have name: "weekName D = fmt_d wy @ ''-W'' @ fmt_02d wn" by (simp add: weekName_def iso)
  have scan: "Sscanf_d_lit_d ''-W'' (weekName D) = Inr (wy, wn)"
    unfolding name using wy wn by (intro Sscanf_Sprintf_d_lit_02d) (simp_all add: isNumberChar_def)
  have sb: "- 900000000000000 \<le> s" "s \<le> 900000000000000" using sum yd range by simp_all
  define w0 where "w0 = (s + 3 + 1) mod 7"
  define w where "w = (if w0 = 0 then 7 else w0)"
  define m where "m = s + 3 + - (w - 1) + (wn - 1) * 7"
  have e: "s + 3 + 1 = s + 4" by simp
  have m': "m = s + 3 - ((if (s + 4) mod 7 = 0 then 7 else (s + 4) mod 7) - 1) + (wn - 1) * 7"
    unfolding m_def w_def w0_def e by simp
  have mo: "mondayOfISOWeek Local (weekName D) = Inr (midnight Local m)"
    unfolding m' s_def using sb wn unfolding s_def by (intro mondayOfISOWeek_scan[OF c scan]) simp_all
  have "(s + yd + 1) mod 7 = 4" using th unfolding Weekday_def sum by simp
  then have "s + 3 + - (w - 1) + (yd div 7 + 1 - 1) * 7 = s + yd - 3"
    unfolding w_def w0_def by (rule monday_arith)
  then have eq: "m = th - 3" unfolding m_def wn_def sum[symmetric] by simp
  have "Weekday (th - 3) = 1" using th unfolding Weekday_def by presburger
  then have "Weekday m = 1" using eq by simp
  moreover have "m \<le> D" "D \<le> m + 6" using eq d unfolding th_def by simp_all
  ultimately show ?thesis using mo by blast
qed

lemma upto_0_6: "[0..6] = [0, 1, 2, 3, 4, 5, 6 :: int]"
  by (simp add: upto_rec1)

lemma daysOfWeek_midnight:
  assumes c: "constant_offset Local"
    and m: "- 900000000000000 \<le> m" "m \<le> 900000000000000"
  shows "daysOfWeek Local (midnight Local m) = [m, m + 1, m + 2, m + 3, m + 4, m + 5, m + 6]"
proof -
  have "local_day Local (AddDate Local (midnight Local m) 0 0 i) = m + i" if "0 \<le> i" "i \<le> 6" for i
  proof -
    have "AddDate Local (midnight Local m) 0 0 i = midnight Local (m + i)"
      using m that by (intro AddDate_midnight[OF c]) simp_all
    then show ?thesis by (simp add: local_day_midnight[OF c])
  qed
  then show ?thesis by (simp add: daysOfWeek_def)
qed

section \<open>The Monday of a canonical week name\<close>

lemma daysSinceEpoch_four_digits:
  assumes "0 \<le> year" "year \<le> 9999"
  shows "- 366 \<le> daysSinceEpoch year" "daysSinceEpoch year \<le> 3651694"
proof -
  have lo: "daysSinceEpoch 0 = - 366" by (simp add: daysSinceEpoch_def)
  have hi: "daysSinceEpoch 9999 = 3651694" by (simp add: daysSinceEpoch_def)
  show "- 366 \<le> daysSinceEpoch year" using dse_mono[OF assms(1)] lo by simp
  show "daysSinceEpoch year \<le> 3651694" using dse_mono[OF assms(2)] hi by simp
qed

lemma is_YYYY_Www_scan:
  assumes "is_YYYY_Www name"
  shows "\<exists>year week. Sscanf_d_lit_d ''-W'' name = Inr (year, week)
           \<and> 0 \<le> year \<and> year \<le> 9999 \<and> 0 \<le> week \<and> week \<le> 99"
proof -
  note sp = is_YYYY_Www_split[OF assms]
  have "Sscanf_d_lit_d ''-W'' (take 4 name @ ''-W'' @ drop 6 name)
      = Inr (int (digits_val (take 4 name)), int (digits_val (drop 6 name)))"
    using sp(2-5) by (intro Sscanf_digits_lit_digits) (auto simp: isNumberChar_def)
  then have sc: "Sscanf_d_lit_d ''-W'' name = Inr (int (digits_val (take 4 name)), int (digits_val (drop 6 name)))"
    using sp(1) by simp
  have "digits_val (take 4 name) < 10 ^ 4" using digits_val_bound[OF sp(2)] sp(4) by simp
  moreover have "digits_val (drop 6 name) < 10 ^ 2" using digits_val_bound[OF sp(3)] sp(5) by simp
  ultimately show ?thesis using sc by auto
qed

lemma SkipSpace_error: "SkipSpace s = Inl err \<Longrightarrow> err = ParseError"
proof (induction s rule: SkipSpace.induct)
  case (1 s)
  then show ?case by (subst (asm) (2) SkipSpace.simps) (auto split: if_splits)
qed

lemma scanInt_error: "scanInt s = Inl err \<Longrightarrow> err = ParseError"
  unfolding scanInt_def
  by (auto simp: Let_def split: sum.splits if_splits dest: SkipSpace_error)

lemma Sscanf_d_lit_d_error: "Sscanf_d_lit_d lit s = Inl err \<Longrightarrow> err = ParseError"
  unfolding Sscanf_d_lit_d_def match_literal_def
  by (auto split: sum.splits if_splits prod.splits dest: scanInt_error)

lemma mondayOfISOWeek_error: "mondayOfISOWeek Local name = Inl err \<Longrightarrow> err = ParseError"
  unfolding mondayOfISOWeek_def
  by (auto simp: Let_def split: sum.splits prod.splits dest: Sscanf_d_lit_d_error)

lemma mondayOfISOWeek_succeeds:
  assumes "is_YYYY_Www name"
  shows "\<exists>monday. mondayOfISOWeek Local name = Inr monday"
proof -
  obtain year week where "Sscanf_d_lit_d ''-W'' name = Inr (year, week)"
    using is_YYYY_Www_scan[OF assms] by blast
  then show ?thesis unfolding mondayOfISOWeek_def by (simp add: Let_def)
qed

lemma monday_is_Monday:
  fixes s k :: int
  shows "(s + 3 - ((if (s + 4) mod 7 = 0 then 7 else (s + 4) mod 7) - 1) + k * 7 + 1) mod 7 = 1"
  by presburger

lemma mondayOfISOWeek_YYYY_Www:
  assumes c: "constant_offset Local" and n: "is_YYYY_Www name"
  shows "\<exists>m. mondayOfISOWeek Local name = Inr (midnight Local m) \<and> Weekday m = 1
           \<and> - 900000000000000 \<le> m \<and> m \<le> 900000000000000"
proof -
  obtain year week where sc: "Sscanf_d_lit_d ''-W'' name = Inr (year, week)"
    and y: "0 \<le> year" "year \<le> 9999" and w: "0 \<le> week" "week \<le> 99"
    using is_YYYY_Www_scan[OF n] by blast
  define s where "s = daysSinceEpoch year"
  define wd where "wd = (if (s + 4) mod 7 = 0 then 7 else (s + 4) mod 7)"
  define m where "m = s + 3 - (wd - 1) + (week - 1) * 7"
  note sb = daysSinceEpoch_four_digits[OF y, folded s_def]
  have wd: "1 \<le> wd" "wd \<le> 7" unfolding wd_def by auto
  have "mondayOfISOWeek Local name = Inr (midnight Local m)"
    unfolding m_def wd_def s_def using sb w unfolding s_def
    by (intro mondayOfISOWeek_scan[OF c sc]) simp_all
  moreover have "Weekday m = 1"
    unfolding Weekday_def m_def wd_def by (rule monday_is_Monday)
  moreover have "- 900000000000000 \<le> m" "m \<le> 900000000000000"
    unfolding m_def using sb wd w by simp_all
  ultimately show ?thesis by blast
qed

section \<open>The days of a week\<close>

lemma gatherDailyForWeek_loop_blocks:
  assumes c: "constant_offset Local" and r: "reads_ok fs project CategoryDaily"
    and m: "- 900000000000000 \<le> m" "m \<le> 900000000000000"
  shows "0 \<le> i \<Longrightarrow> gatherDailyForWeek_loop fs Local project (midnight Local m) i parts
           = Inr (parts @ concat (map (\<lambda>k. daily_block fs project (m + k)) [i..6]))"
proof (induction "nat (7 - i)" arbitrary: i parts)
  case 0
  then have "\<not> i < 7" by simp
  then show ?case by (subst gatherDailyForWeek_loop.simps) simp
next
  case (Suc n)
  note ok = ReadNote_ok[OF r]
  have i: "i < 7" "0 \<le> i + 1" "n = nat (7 - (i + 1))" using Suc.hyps(2) Suc.prems by simp_all
  have "AddDate Local (midnight Local m) 0 0 i = midnight Local (m + i)"
    using m i(1) Suc.prems by (intro AddDate_midnight[OF c]) simp_all
  then have ld: "local_day Local (AddDate Local (midnight Local m) 0 0 i) = m + i"
    by (simp add: local_day_midnight[OF c])
  define dayName where "dayName = Format_2006_01_02 (m + i)"
  define content where "content = note_text fs project CategoryDaily dayName"
  have up: "[i..6] = i # [i + 1..6]" using i(1) by (simp add: upto_rec1)
  note IH = Suc.hyps(1)[OF i(3) i(2)]
  show ?case
  proof (cases "content = []")
    case True
    have "gatherDailyForWeek_loop fs Local project (midnight Local m) i parts
        = gatherDailyForWeek_loop fs Local project (midnight Local m) (i + 1) parts"
      using i(1) True
      by (subst gatherDailyForWeek_loop.simps)
         (simp add: Let_def ld ok dayName_def[symmetric] content_def[symmetric])
    then show ?thesis unfolding IH up using True
      by (simp add: daily_block_def Let_def dayName_def[symmetric] content_def[symmetric])
  next
    case False
    define block where "block = rule2 @ '' '' @ dayName @ '' ('' @ Weekday_String (Weekday (m + i)) @ '') '' @ rule2 @ NL @ content"
    have "gatherDailyForWeek_loop fs Local project (midnight Local m) i parts
        = gatherDailyForWeek_loop fs Local project (midnight Local m) (i + 1) (parts @ [block])"
      using i(1) False
      by (subst gatherDailyForWeek_loop.simps)
         (simp add: Let_def ld ok dayName_def[symmetric] content_def[symmetric] block_def)
    then show ?thesis unfolding IH up using False
      by (simp add: daily_block_def Let_def dayName_def[symmetric] content_def[symmetric] block_def)
  qed
qed

lemma gatherDailyForWeek_eq:
  assumes "constant_offset Local" "reads_ok fs project CategoryDaily"
    "mondayOfISOWeek Local name = Inr (midnight Local m)"
    "- 900000000000000 \<le> m" "m \<le> 900000000000000"
  shows "gatherDailyForWeek fs Local project name
       = Inr (let blocks = concat (map (daily_block fs project)
                 [m, m + 1, m + 2, m + 3, m + 4, m + 5, m + 6])
              in if blocks = [] then ''(no daily entries for this week)'' else Join blocks (NL @ NL))"
proof -
  have l: "gatherDailyForWeek_loop fs Local project (midnight Local m) 0 []
      = Inr ([] @ concat (map (\<lambda>k. daily_block fs project (m + k)) [0..6]))"
    using assms(1,2,4,5) by (rule gatherDailyForWeek_loop_blocks) simp
  show ?thesis unfolding gatherDailyForWeek_def assms(3) by (simp add: Let_def l upto_0_6)
qed

section \<open>The week in a location that keeps one offset\<close>

lemma constant_offset_UTC: "constant_offset UTC"
  by (simp add: constant_offset_def UTC_def)

text \<open>Where the clock of \<^verbatim>\<open>time.Local\<close> keeps one offset, \<open>mondayOfISOWeek\<close> on the
  week name of a day \<open>D\<close> returns the midnight that begins a Monday, the seven dates
  from it are that day and the six after it, and \<open>D\<close> is one of them.\<close>

lemma week_of_date_constant_offset:
  assumes "constant_offset Local" "Time_in_range D"
  shows "\<exists>m. mondayOfISOWeek Local (weekName D) = Inr (midnight Local m) \<and> Weekday m = 1
           \<and> daysOfWeek Local (midnight Local m) = [m, m + 1, m + 2, m + 3, m + 4, m + 5, m + 6]
           \<and> D \<in> set (daysOfWeek Local (midnight Local m))"
proof -
  obtain m where m: "mondayOfISOWeek Local (weekName D) = Inr (midnight Local m)" "Weekday m = 1"
    "m \<le> D" "D \<le> m + 6"
    using mondayOfISOWeek_weekName[OF assms] by blast
  have b: "- 900000000000000 \<le> m" "m \<le> 900000000000000"
    using m(3,4) assms(2) unfolding Time_in_range_def by simp_all
  note days = daysOfWeek_midnight[OF assms(1) b]
  have "D = m \<or> D = m + 1 \<or> D = m + 2 \<or> D = m + 3 \<or> D = m + 4 \<or> D = m + 5 \<or> D = m + 6"
    using m(3,4) by arith
  then have "D \<in> set (daysOfWeek Local (midnight Local m))" unfolding days by auto
  then show ?thesis using m(1,2) days by blast
qed

text \<open>And there the reference content of a week \<^verbatim>\<open>YYYY-Www\<close> is made of the seven days
  from that Monday on: one block for every day whose note is not empty, in the order of
  the dates, or the text \<^verbatim>\<open>(no daily entries for this week)\<close>.\<close>

lemma gatherDailyForWeek_constant_offset:
  assumes "constant_offset Local" "is_YYYY_Www name" "reads_ok fs project CategoryDaily"
  shows "\<exists>m. mondayOfISOWeek Local name = Inr (midnight Local m) \<and> Weekday m = 1
      \<and> GatherReferenceContent fs Local project CategoryWeekly name
        = Inr (let blocks = concat (map (daily_block fs project)
                  [m, m + 1, m + 2, m + 3, m + 4, m + 5, m + 6])
               in if blocks = [] then ''(no daily entries for this week)'' else Join blocks (NL @ NL))"
proof -
  obtain m where m: "mondayOfISOWeek Local name = Inr (midnight Local m)" "Weekday m = 1"
    "- 900000000000000 \<le> m" "m \<le> 900000000000000"
    using mondayOfISOWeek_YYYY_Www[OF assms(1,2)] by blast
  have g: "GatherReferenceContent fs Local project CategoryWeekly name
      = gatherDailyForWeek fs Local project name"
    by (simp add: GatherReferenceContent_def)
  show ?thesis
    by (intro exI[of _ m] conjI m(1) m(2)) (simp only: g gatherDailyForWeek_eq[OF assms(1,3) m(1,3,4)])
qed

section \<open>The weeks of a month\<close>

lemma set_first_occurrences: "set (first_occurrences xs) = set xs"
  by (induction xs rule: first_occurrences.induct) auto

lemma distinct_first_occurrences: "distinct (first_occurrences xs)"
  by (induction xs rule: first_occurrences.induct) (auto simp: set_first_occurrences)

lemma foldl_put_new:
  "foldl put_new acc xs = acc @ first_occurrences (filter (\<lambda>x. x \<notin> set acc) xs)"
proof (induction xs arbitrary: acc)
  case Nil
  then show ?case by simp
next
  case (Cons x xs)
  show ?case
  proof (cases "x \<in> set acc")
    case True
    then show ?thesis using Cons[of acc] by (simp add: put_new_def)
  next
    case False
    have "filter (\<lambda>y. y \<notin> set (acc @ [x])) xs = filter (\<lambda>y. y \<noteq> x) (filter (\<lambda>y. y \<notin> set acc) xs)"
      by (auto intro: filter_cong)
    then show ?thesis using False Cons[of "acc @ [x]"] by (simp add: put_new_def)
  qed
qed

lemma weekNames_loop_foldl:
  assumes "seen = (\<lambda>k. k \<in> set weekNames)"
  shows "weekNames_loop year month daysInMonth d seen weekNames
       = foldl put_new weekNames (map (\<lambda>d. weekName (Date year month d)) [d..daysInMonth])"
  using assms
proof (induction year month daysInMonth d seen weekNames rule: weekNames_loop.induct)
  case (1 year month daysInMonth d seen weekNames)
  show ?case
  proof (cases "d \<le> daysInMonth")
    case False
    then show ?thesis by (subst weekNames_loop.simps) simp
  next
    case True
    define wk where "wk = weekName (Date year month d)"
    have up: "[d..daysInMonth] = d # [d + 1..daysInMonth]" using True by (simp add: upto_rec1)
    show ?thesis
    proof (cases "seen wk")
      case True
      then have "weekNames_loop year month daysInMonth d seen weekNames
          = weekNames_loop year month daysInMonth (d + 1) seen weekNames"
        using \<open>d \<le> daysInMonth\<close> by (subst weekNames_loop.simps) (simp add: Let_def wk_def)
      also have "\<dots> = foldl put_new weekNames (map (\<lambda>d. weekName (Date year month d)) [d + 1..daysInMonth])"
        using True[unfolded wk_def] "1.prems"
        by (intro "1.IH"(2)[OF \<open>d \<le> daysInMonth\<close> refl refl]) simp_all
      finally have "weekNames_loop year month daysInMonth d seen weekNames
          = foldl put_new weekNames (map (\<lambda>d. weekName (Date year month d)) [d + 1..daysInMonth])" .
      moreover have "put_new weekNames wk = weekNames" using True "1.prems" by (simp add: put_new_def)
      ultimately show ?thesis unfolding up by (simp add: wk_def)
    next
      case False
      have s: "seen(wk := True) = (\<lambda>k. k \<in> set (weekNames @ [wk]))"
        using "1.prems" by (auto simp add: fun_eq_iff)
      have "weekNames_loop year month daysInMonth d seen weekNames
          = weekNames_loop year month daysInMonth (d + 1) (seen(wk := True)) (weekNames @ [wk])"
        using \<open>d \<le> daysInMonth\<close> False by (subst weekNames_loop.simps) (simp add: Let_def wk_def)
      also have "\<dots> = foldl put_new (weekNames @ [wk]) (map (\<lambda>d. weekName (Date year month d)) [d + 1..daysInMonth])"
        unfolding wk_def
        by (rule "1.IH"(1)[OF \<open>d \<le> daysInMonth\<close> refl refl False[unfolded wk_def] s[unfolded wk_def]])
      finally have "weekNames_loop year month daysInMonth d seen weekNames
          = foldl put_new (weekNames @ [wk]) (map (\<lambda>d. weekName (Date year month d)) [d + 1..daysInMonth])" .
      moreover have "put_new weekNames wk = weekNames @ [wk]" using False "1.prems" by (simp add: put_new_def)
      ultimately show ?thesis unfolding up by (simp add: wk_def)
    qed
  qed
qed

lemma weekNames_loop_first_occurrences:
  "weekNames_loop year month daysInMonth 1 (\<lambda>k. False) []
     = first_occurrences (map (\<lambda>d. weekName (Date year month d)) [1..daysInMonth])"
  by (subst weekNames_loop_foldl) (simp_all add: foldl_put_new)

lemma Date_next_month_0:
  assumes "1 \<le> m" "m \<le> 12"
  shows "Date y (m + 1) 0 = Date y m (daysIn m y)"
proof (cases "m = 12")
  case True
  have "norm y 12 12 = (y + 1, 0)" by (simp add: norm_def)
  then have "Date y 13 0 = daysSinceEpoch (y + 1) - 1"
    by (simp add: Date_def daysBefore_def)
  moreover have "Date y 12 (daysIn 12 y) = daysSinceEpoch y + cumDays y 12 + daysIn 12 y - 1"
    by (simp add: Date_in_year)
  moreover have "cumDays y 12 + daysIn 12 y = (if isLeap y then 366 else 365)"
    using cumDays_next[of 12 y] by (simp add: cumDays_13)
  ultimately show ?thesis using True by (simp add: dse_Suc)
next
  case False
  then have m: "1 \<le> m + 1" "m + 1 \<le> 12" using assms by simp_all
  show ?thesis using cumDays_next[OF assms, of y] by (simp add: Date_in_year[OF m] Date_in_year[OF assms])
qed

lemma daysInMonth_eq:
  assumes "1 \<le> m" "m \<le> 12"
  shows "Day (Date y (m + 1) 0) = daysIn m y"
  unfolding Date_next_month_0[OF assms]
  using daysIn_pos[OF assms, of y] by (intro parts_of_Date assms) simp_all






lemma all_digits_isDigit: "(\<forall>i < length s. isDigit s i) \<Longrightarrow> all_digits s"
  unfolding all_digits_iff digit_chars_def list_all_length isDigit_def by simp

lemma parse_stdLongYear_Inr:
  assumes "parse_stdLongYear s = Inr (year, rest)"
  shows "0 \<le> year" "year \<le> 9999"
proof -
  have len: "4 \<le> length s" and d0: "isDigit s 0" and a: "atoi (take 4 s) = Inr year"
    using assms unfolding parse_stdLongYear_def by (auto split: if_splits sum.splits)
  have ne: "s \<noteq> []" using len by auto
  have hd: "hd (take 4 s) = s ! 0" using ne by (simp add: hd_conv_nth)
  have "48 \<le> (of_char (s ! 0) :: nat)" using d0 by (simp add: isDigit_def)
  then have sign: "hd (take 4 s) \<noteq> CHR ''-''" "hd (take 4 s) \<noteq> CHR ''+''" unfolding hd by auto
  have "(\<forall>i < length (take 4 s). isDigit (take 4 s) i) \<and> year = int (digits_val (take 4 s))"
    using a sign unfolding atoi_def by (auto simp: Let_def split: if_splits)
  then have ad: "all_digits (take 4 s)" and y: "year = int (digits_val (take 4 s))"
    using all_digits_isDigit by blast+
  have "digits_val (take 4 s) < 10 ^ length (take 4 s)" using ad by (rule digits_val_bound)
  moreover have "length (take 4 s) = 4" using len by simp
  ultimately show "0 \<le> year" "year \<le> 9999" unfolding y by simp_all
qed

lemma Parse_2006_01_Inr:
  assumes "Parse_2006_01 name = Inr t"
  shows "\<exists>y m. 0 \<le> y \<and> y \<le> 9999 \<and> 1 \<le> m \<and> m \<le> 12 \<and> t = Date y m 1"
proof -
  obtain y s1 s2 m s3 where 1: "parse_stdLongYear name = Inr (y, s1)"
    and 3: "parse_stdZeroMonth s2 = Inr (m, s3)" and t: "t = Date y m 1"
    using assms unfolding Parse_2006_01_def by (auto split: sum.splits prod.splits if_splits)
  have "1 \<le> m" "m \<le> 12" using 3 unfolding parse_stdZeroMonth_def by (auto split: sum.splits if_splits)
  then show ?thesis using parse_stdLongYear_Inr[OF 1] t by blast
qed

lemma Parse_2006_01_parts:
  assumes "Parse_2006_01 name = Inr t"
  shows "0 \<le> Year t" "Year t \<le> 9999" "1 \<le> Month t" "Month t \<le> 12" "t = Date (Year t) (Month t) 1"
proof -
  obtain y m where ym: "0 \<le> y" "y \<le> 9999" "1 \<le> m" "m \<le> 12" and t: "t = Date y m 1"
    using Parse_2006_01_Inr[OF assms] by blast
  have d: "(1::int) \<le> 1" "1 \<le> daysIn m y" using daysIn_pos[OF ym(3,4), of y] by simp_all
  note q = parts_of_Date[OF ym(3,4) d]
  show "0 \<le> Year t" "Year t \<le> 9999" "1 \<le> Month t" "Month t \<le> 12" "t = Date (Year t) (Month t) 1"
    using ym q t by simp_all
qed

lemma ReadNote_Inr: "ReadNote fs project category name = Inr content \<Longrightarrow>
    content = note_text fs project category name"
  unfolding ReadNote_def note_text_def
  by (cases "ReadFile fs project category name") auto

lemma gatherWeeklyForMonth_loop_Inr:
  "gatherWeeklyForMonth_loop fs project weekNames parts = Inr ps \<Longrightarrow>
     ps = parts @ map (weekly_block fs project) weekNames"
proof (induction weekNames arbitrary: parts)
  case Nil
  then show ?case by simp
next
  case (Cons wk weekNames)
  obtain content where c: "ReadNote fs project CategoryWeekly wk = Inr content"
    using Cons.prems by (auto split: sum.splits)
  have b: "summary_block (rule2 @ '' '' @ wk @ '' '' @ rule2) content = weekly_block fs project wk"
    using ReadNote_Inr[OF c] by (simp add: summary_block_eq weekly_block_def)
  have "gatherWeeklyForMonth_loop fs project weekNames (parts @ [weekly_block fs project wk]) = Inr ps"
    using Cons.prems unfolding gatherWeeklyForMonth_loop.simps c b[symmetric] by (simp add: Let_def)
  then have "ps = (parts @ [weekly_block fs project wk]) @ map (weekly_block fs project) weekNames"
    by (rule Cons.IH)
  then show ?case by simp
qed


lemma gatherWeeklyForMonth_names:
  assumes "Parse_2006_01 name = Inr t"
  shows "gatherWeeklyForMonth fs project name
       = (let weekNames = first_occurrences
                (map weekName (map (Date (Year t) (Month t)) [1..daysIn (Month t) (Year t)]))
          in case gatherWeeklyForMonth_loop fs project weekNames [] of
               Inl err \<Rightarrow> Inl err
             | Inr parts \<Rightarrow>
                 if length parts = 0 then Inr ''(no weekly summaries for this month)''
                 else Inr (Join parts (NL @ NL)))"
proof -
  note p = Parse_2006_01_parts[OF assms]
  show ?thesis
    unfolding gatherWeeklyForMonth_def assms
    by (simp add: Let_def daysInMonth_eq[OF p(3,4)] weekNames_loop_first_occurrences o_def)
qed

lemma Sscanf_weekName:
  assumes "Time_in_range D"
  shows "Sscanf_d_lit_d ''-W'' (weekName D) = Inr (ISOWeek D)"
proof -
  define d0 where "d0 = 4 - Weekday D"
  define d where "d = (if d0 = 4 then - 3 else d0)"
  define th where "th = D + d"
  have iso: "ISOWeek D = (Year th, YearDay0 th div 7 + 1)"
    unfolding th_def d_def d0_def by (rule ISOWeek_eq)
  have d: "- 3 \<le> d" "d \<le> 3" unfolding d_def d0_def by (rule thursday_of_week)+
  have range: "- 100000000000010 \<le> th" "th \<le> 100000000000010"
    using assms d unfolding Time_in_range_def th_def by simp_all
  note wy = Year_bounds[OF range]
  have yd: "0 \<le> YearDay0 th" "YearDay0 th < 366"
    using Year_YearDay0(2,3)[of th] by (simp_all split: if_splits)
  have wn: "0 \<le> YearDay0 th div 7 + 1" "YearDay0 th div 7 + 1 \<le> 9223372036854775807"
    using yd by simp_all
  have name: "weekName D = fmt_d (Year th) @ ''-W'' @ fmt_02d (YearDay0 th div 7 + 1)"
    by (simp add: weekName_def iso)
  show ?thesis unfolding name iso using wy wn
    by (intro Sscanf_Sprintf_d_lit_02d) (simp_all add: isNumberChar_def)
qed

lemma weekName_inj:
  assumes "Time_in_range a" "Time_in_range b" "weekName a = weekName b"
  shows "ISOWeek a = ISOWeek b"
  using Sscanf_weekName[OF assms(1)] Sscanf_weekName[OF assms(2)] assms(3) by simp

lemma Weekday_plus_7: "Weekday (D + 7 * k) = Weekday D"
  unfolding Weekday_def by presburger

lemma ISOWeek_plus_weeks:
  assumes "1 \<le> k"
  shows "ISOWeek (D + 7 * k) \<noteq> ISOWeek D"
proof
  assume eq: "ISOWeek (D + 7 * k) = ISOWeek D"
  define d0 where "d0 = 4 - Weekday D"
  define d where "d = (if d0 = 4 then - 3 else d0)"
  define th where "th = D + d"
  have 1: "ISOWeek D = (Year th, YearDay0 th div 7 + 1)"
    unfolding th_def d_def d0_def by (rule ISOWeek_eq)
  have "ISOWeek (D + 7 * k) = (Year (D + 7 * k + d), YearDay0 (D + 7 * k + d) div 7 + 1)"
    using ISOWeek_eq[of "D + 7 * k"] unfolding Weekday_plus_7 d_def d0_def by simp
  moreover have "D + 7 * k + d = th + 7 * k" unfolding th_def by simp
  ultimately have 2: "ISOWeek (D + 7 * k) = (Year (th + 7 * k), YearDay0 (th + 7 * k) div 7 + 1)"
    by (simp only:)
  have y: "Year (th + 7 * k) = Year th" and w: "YearDay0 (th + 7 * k) div 7 = YearDay0 th div 7"
    using eq unfolding 1 2 by simp_all
  have "daysSinceEpoch (Year th) + YearDay0 (th + 7 * k) = th + 7 * k"
    using Year_YearDay0(1)[of "th + 7 * k"] unfolding y by simp
  then have "YearDay0 (th + 7 * k) = YearDay0 th + 7 * k"
    using Year_YearDay0(1)[of th] by simp
  then have "YearDay0 (th + 7 * k) div 7 = YearDay0 th div 7 + k" by simp
  then show False using w assms by simp
qed

lemma dse_0: "daysSinceEpoch 0 = - 366"
  by (simp add: daysSinceEpoch_def)

lemma dse_10000: "daysSinceEpoch 10000 = 3652059"
  by (simp add: daysSinceEpoch_def)

lemma Date_in_range:
  assumes y: "0 \<le> y" "y \<le> 9999" and m: "1 \<le> m" "m \<le> 12" and d: "1 \<le> d" "d \<le> 31"
  shows "Time_in_range (Date y m d)"
proof -
  have "daysSinceEpoch 0 \<le> daysSinceEpoch y" "daysSinceEpoch y \<le> daysSinceEpoch 10000"
    using y by (auto intro!: dse_mono)
  moreover have "cumDays y 1 \<le> cumDays y m" "cumDays y m \<le> cumDays y 13"
    using m by (auto intro!: cumDays_mono)
  ultimately show ?thesis
    unfolding Date_in_year[OF m] Time_in_range_def dse_0 dse_10000 cumDays_1 cumDays_13
    using d by (simp split: if_splits)
qed

lemma Date_plus: "Date y m (d + k) = Date y m d + k"
  by (simp add: Date_def Let_def split: prod.splits)

lemma four_weeks_of_month:
  assumes y: "0 \<le> y" "y \<le> 9999" and m: "1 \<le> m" "m \<le> 12"
  shows "4 \<le> length (first_occurrences (map weekName (map (Date y m) [1..daysIn m y])))"
proof -
  define D where "D = Date y m 1"
  define names where "names = map weekName (map (Date y m) [1..daysIn m y])"
  have dim: "28 \<le> daysIn m y" using daysIn_pos[OF m] by simp
  have day: "Date y m (1 + 7 * k) = D + 7 * k" for k unfolding D_def by (rule Date_plus)
  have mem: "weekName (D + 7 * k) \<in> set names" if "0 \<le> k" "k \<le> 3" for k
  proof -
    have "1 + 7 * k \<in> set [1..daysIn m y]" using that dim by simp
    then have "weekName (Date y m (1 + 7 * k)) \<in> set names" unfolding names_def by simp
    then show ?thesis unfolding day .
  qed
  have rng: "Time_in_range (D + 7 * k)" if "0 \<le> k" "k \<le> 3" for k
    unfolding day[symmetric] using that by (intro Date_in_range y m) simp_all
  have ne: "weekName (D + 7 * i) \<noteq> weekName (D + 7 * j)" if "0 \<le> i" "i < j" "j \<le> 3" for i j
  proof
    assume "weekName (D + 7 * i) = weekName (D + 7 * j)"
    then have eq: "ISOWeek (D + 7 * i) = ISOWeek (D + 7 * j)"
      using that by (intro weekName_inj rng) simp_all
    have e: "(D + 7 * i) + 7 * (j - i) = D + 7 * j" by simp
    have "ISOWeek ((D + 7 * i) + 7 * (j - i)) \<noteq> ISOWeek (D + 7 * i)"
      using that by (intro ISOWeek_plus_weeks) simp
    then show False unfolding e using eq by simp
  qed
  define S where "S = {weekName (D + 7 * 0), weekName (D + 7 * 1), weekName (D + 7 * 2), weekName (D + 7 * 3)}"
  have "card S = 4" unfolding S_def
    using ne[of 0 1] ne[of 0 2] ne[of 0 3] ne[of 1 2] ne[of 1 3] ne[of 2 3] by simp
  moreover have "S \<subseteq> set names" unfolding S_def using mem[of 0] mem[of 1] mem[of 2] mem[of 3] by simp
  ultimately have "4 \<le> card (set names)" using card_mono[of "set names" S] by simp
  also have "\<dots> = card (set (first_occurrences names))" by (simp add: set_first_occurrences)
  also have "\<dots> \<le> length (first_occurrences names)" by (rule card_length)
  finally show ?thesis unfolding names_def .
qed

lemma gatherWeeklyForMonth_loop_Inl:
  "gatherWeeklyForMonth_loop fs project weekNames parts = Inl e \<Longrightarrow> e = StoreError"
proof (induction weekNames arbitrary: parts)
  case Nil
  then show ?case by simp
next
  case (Cons wk weekNames)
  show ?case
  proof (cases "ReadNote fs project CategoryWeekly wk")
    case (Inl e')
    then have "e' = StoreError" unfolding ReadNote_def by (auto split: read_result.splits)
    then show ?thesis using Cons.prems Inl by simp
  next
    case (Inr content)
    then show ?thesis using Cons.prems Cons.IH by (simp add: Let_def)
  qed
qed

lemma Join_starts: "xs \<noteq> [] \<Longrightarrow> \<exists>rest. Join xs sep = hd xs @ rest"
proof (cases xs)
  case Nil
  assume "xs \<noteq> []"
  then show ?thesis using Nil by simp
next
  case (Cons a as)
  then show ?thesis by (cases as) simp_all
qed

lemma Join_weekly_blocks_not_placeholder:
  assumes "weeks \<noteq> []"
  shows "Join (map (weekly_block fs project) weeks) sep \<noteq> ''(no weekly summaries for this month)''"
proof -
  obtain w ws where w: "weeks = w # ws" using assms by (cases weeks) auto
  obtain rest where "Join (map (weekly_block fs project) weeks) sep = weekly_block fs project w @ rest"
    using Join_starts[of "map (weekly_block fs project) weeks" sep] w by auto
  then have "hd (Join (map (weekly_block fs project) weeks) sep) = CHR 0xE2"
    by (simp add: weekly_block_def rule2_def)
  then show ?thesis by auto
qed

lemma gatherWeeklyForMonth_cases:
  assumes "Parse_2006_01 name = Inr t"
  defines "weeks \<equiv> first_occurrences (map weekName (map (Date (Year t) (Month t)) [1..daysIn (Month t) (Year t)]))"
  shows "gatherWeeklyForMonth fs project name = Inl StoreError
       \<or> gatherWeeklyForMonth fs project name
           = Inr (if weeks = [] then ''(no weekly summaries for this month)''
                  else Join (map (weekly_block fs project) weeks) (NL @ NL))"
proof (cases "gatherWeeklyForMonth_loop fs project weeks []")
  case (Inl e)
  then have "e = StoreError" by (rule gatherWeeklyForMonth_loop_Inl)
  then show ?thesis
    using Inl unfolding gatherWeeklyForMonth_names[OF assms(1)] weeks_def by (simp add: Let_def)
next
  case (Inr ps)
  then have "ps = map (weekly_block fs project) weeks" using gatherWeeklyForMonth_loop_Inr by fastforce
  then show ?thesis
    using Inr unfolding gatherWeeklyForMonth_names[OF assms(1)] weeks_def by (simp add: Let_def)
qed


section \<open>Sorting the reminders\<close>

lemma mset_insert_by: "mset (insert_by lt x ys) = add_mset x (mset ys)"
  by (induction ys) simp_all

lemma mset_sort_Slice: "mset (sort_Slice lt xs) = mset xs"
  unfolding sort_Slice_def by (induction xs) (simp_all add: mset_insert_by)

lemma set_sort_Slice: "set (sort_Slice lt xs) = set xs"
  using mset_sort_Slice[of lt xs] by (metis set_mset_mset)

lemma reminder_less_asym: "reminder_less a b \<Longrightarrow> \<not> reminder_less b a"
  by (auto simp: reminder_less_def Let_def split: if_splits)

lemma reminder_le_trans: "reminder_le a b \<Longrightarrow> reminder_le b c \<Longrightarrow> reminder_le a c"
  unfolding reminder_le_def reminder_less_def Let_def
  by (auto split: if_splits)

lemma sorted_insert_by:
  assumes "sorted_wrt reminder_le ys"
  shows "sorted_wrt reminder_le (insert_by reminder_less x ys)"
  using assms
proof (induction ys)
  case Nil
  then show ?case by simp
next
  case (Cons y ys)
  show ?case
  proof (cases "reminder_less x y")
    case True
    then have xy: "reminder_le x y" unfolding reminder_le_def by (rule reminder_less_asym)
    have "\<forall>z \<in> set ys. reminder_le x z"
      using Cons.prems xy reminder_le_trans by auto
    then show ?thesis using True Cons.prems xy by simp
  next
    case False
    then have yx: "reminder_le y x" by (simp add: reminder_le_def)
    have "set (insert_by reminder_less x ys) = insert x (set ys)"
      using mset_insert_by[of reminder_less x ys] by (metis set_mset_mset set_mset_add_mset_insert)
    then show ?thesis using False Cons yx by simp
  qed
qed

lemma sorted_sort_Slice: "sorted_wrt reminder_le (sort_Slice reminder_less xs)"
  unfolding sort_Slice_def by (induction xs) (simp_all add: sorted_insert_by)

lemma sorted_wrt_strict:
  assumes "sorted_wrt reminder_le xs" "distinct xs"
    and "\<forall>a \<in> set xs. \<forall>b \<in> set xs. a \<noteq> b \<longrightarrow> reminder_less a b \<or> reminder_less b a"
  shows "sorted_wrt reminder_less xs"
  using assms
proof (induction xs)
  case Nil
  then show ?case by simp
next
  case (Cons x xs)
  have "\<forall>y \<in> set xs. reminder_less x y"
  proof
    fix y assume y: "y \<in> set xs"
    then have "x \<noteq> y" "reminder_le x y" using Cons.prems(1,2) by auto
    moreover have "reminder_less x y \<or> reminder_less y x" using Cons.prems(3) y \<open>x \<noteq> y\<close> by simp
    ultimately show "reminder_less x y" by (auto simp: reminder_le_def)
  qed
  moreover have "sorted_wrt reminder_less xs" using Cons by simp
  ultimately show ?case by simp
qed

lemma strict_sorted_unique:
  assumes "sorted_wrt reminder_less xs" "sorted_wrt reminder_less ys" "set xs = set ys"
  shows "xs = ys"
  using assms
proof (induction xs arbitrary: ys)
  case Nil
  then show ?case by simp
next
  case (Cons x xs)
  obtain y ys' where ys: "ys = y # ys'" using Cons.prems(3) by (cases ys) auto
  have irr: "\<not> reminder_less a a" for a using reminder_less_asym by blast
  have xy: "x = y"
  proof (rule ccontr)
    assume ne: "x \<noteq> y"
    have "x \<in> set ys'" using Cons.prems(3) ne unfolding ys by auto
    then have 1: "reminder_less y x" using Cons.prems(2) unfolding ys by simp
    have "y \<in> set xs" using Cons.prems(3) ne unfolding ys by auto
    then have 2: "reminder_less x y" using Cons.prems(1) by simp
    show False using 1 2 reminder_less_asym by blast
  qed
  have nx: "x \<notin> set xs" using Cons.prems(1) irr by auto
  have ny: "y \<notin> set ys'" using Cons.prems(2) irr unfolding ys by auto
  have "set xs = set ys'" using Cons.prems(3) nx ny unfolding ys xy by auto
  then have "xs = ys'" using Cons.IH[of ys'] Cons.prems(1,2) unfolding ys by simp
  then show ?case unfolding ys xy by simp
qed

section \<open>What the reminder scan returns\<close>

lemma map_put_eq: "map_put = put_new"
  by (simp add: fun_eq_iff map_put_def put_new_def)

lemma foldl_map_put: "foldl map_put [] xs = first_occurrences xs"
  unfolding map_put_eq by (simp add: foldl_put_new)

lemma collect_periods_eq:
  "collect_periods cw cm cq cy dates (W, M, Q, Y)
     = (foldl map_put W (filter (\<lambda>k. k \<noteq> cw) (map weekName dates)),
        foldl map_put M (filter (\<lambda>k. k \<noteq> cm) (map Format_2006_01 dates)),
        foldl map_put Q (filter (\<lambda>k. k \<noteq> cq) (map quarterName dates)),
        foldl map_put Y (filter (\<lambda>k. k \<noteq> cy) (map Format_2006 dates)))"
  by (induction dates arbitrary: W M Q Y) (simp_all add: Let_def)

lemma set_period_keys:
  "set (period_keys c now dates)
     = {periodIdentifier d c | d. d \<in> set dates \<and> periodIdentifier d c \<noteq> periodIdentifier now c}"
  unfolding period_keys_def set_first_occurrences by auto

lemma distinct_period_keys: "distinct (period_keys c now dates)"
  unfolding period_keys_def by (rule distinct_first_occurrences)

lemma missing_summaries_eq:
  "missing_summaries fs project c (category_word c @ '' summary for '') names
     = map (expected_reminder c) (filter (\<lambda>n. \<not> NoteExists fs project c n) names)"
  by (induction names) (simp_all add: expected_reminder_def)

lemma summaries_for_dates_eq:
  "summaries_for_dates fs range_order now project dates
     = sort_Slice reminder_less (unsorted_reminders fs range_order now project dates)"
proof -
  have w: "''Weekly summary for '' = category_word CategoryWeekly @ '' summary for ''"
    and m: "''Monthly summary for '' = category_word CategoryMonthly @ '' summary for ''"
    and q: "''Quarterly summary for '' = category_word CategoryQuarterly @ '' summary for ''"
    and y: "''Yearly summary for '' = category_word CategoryYearly @ '' summary for ''"
    by (simp_all add: category_word_def)
  show ?thesis
    unfolding summaries_for_dates_def collect_periods_eq Let_def prod.case w m q y missing_summaries_eq
      foldl_map_put unsorted_reminders_def summary_categories_def period_keys_def periodIdentifier_def
    by simp
qed

lemma set_unsorted_reminders:
  assumes "\<forall>ks. mset (range_order ks) = mset ks"
  shows "set (unsorted_reminders fs range_order now project dates)
       = {expected_reminder c (periodIdentifier d c) | c d.
            c \<in> set summary_categories \<and> d \<in> set dates
            \<and> periodIdentifier d c \<noteq> periodIdentifier now c
            \<and> \<not> NoteExists fs project c (periodIdentifier d c)}"
proof -
  have s: "set (range_order ks) = set ks" for ks using assms by (metis set_mset_mset)
  show ?thesis
    by (auto simp add: unsorted_reminders_def s set_period_keys)
qed

lemma expected_reminder_inj: "expected_reminder c n = expected_reminder c' n' \<longleftrightarrow> c = c' \<and> n = n'"
  by (auto simp: expected_reminder_def)

lemma distinct_unsorted_reminders:
  assumes "\<forall>ks. mset (range_order ks) = mset ks"
  shows "distinct (unsorted_reminders fs range_order now project dates)"
proof -
  have d: "distinct (range_order ks)" if "distinct ks" for ks
    using assms that by (metis distinct_count_atmost_1 set_mset_mset)
  have seg: "distinct (map (expected_reminder c)
        (filter (\<lambda>n. \<not> NoteExists fs project c n) (range_order (period_keys c now dates))))" for c
    using d[OF distinct_period_keys[of c now dates]]
    by (simp add: distinct_map inj_on_def expected_reminder_inj)
  show ?thesis
    unfolding unsorted_reminders_def summary_categories_def
    using seg by (auto simp: expected_reminder_inj)
qed

lemma categoryOrder_inj: "categoryOrder c = categoryOrder c' \<longleftrightarrow> c = c'"
  by (cases c; cases c') (simp_all add: categoryOrder_def)

lemma expected_reminder_comparable:
  assumes "expected_reminder c n \<noteq> expected_reminder c' n'"
  shows "reminder_less (expected_reminder c n) (expected_reminder c' n')
       \<or> reminder_less (expected_reminder c' n') (expected_reminder c n)"
proof -
  show ?thesis
  proof (cases "c = c'")
    case True
    then have "n \<noteq> n'" using assms by auto
    then have "n < n' \<or> n' < n" by auto
    then show ?thesis using True
      unfolding reminder_less_def Let_def expected_reminder_def by auto
  next
    case False
    then have "categoryOrder c \<noteq> categoryOrder c'" by (simp add: categoryOrder_inj)
    then have "categoryOrder c < categoryOrder c' \<or> categoryOrder c' < categoryOrder c" by auto
    then show ?thesis
      unfolding reminder_less_def Let_def expected_reminder_def by auto
  qed
qed

lemma summaries_strictly_sorted:
  assumes "\<forall>ks. mset (range_order ks) = mset ks"
  shows "sorted_wrt reminder_less (summaries_for_dates fs range_order now project dates)"
proof -
  define U where "U = unsorted_reminders fs range_order now project dates"
  have m: "mset (sort_Slice reminder_less U) = mset U" by (rule mset_sort_Slice)
  have d: "distinct (sort_Slice reminder_less U)"
    using distinct_unsorted_reminders[OF assms, of fs now project dates] m
    unfolding U_def by (metis mset_eq_imp_distinct_iff)
  have "\<forall>a \<in> set U. \<exists>c n. a = expected_reminder c n"
    unfolding U_def set_unsorted_reminders[OF assms] by blast
  then have cmp: "\<forall>a \<in> set (sort_Slice reminder_less U). \<forall>b \<in> set (sort_Slice reminder_less U).
      a \<noteq> b \<longrightarrow> reminder_less a b \<or> reminder_less b a"
    unfolding set_sort_Slice using expected_reminder_comparable by metis
  show ?thesis
    unfolding summaries_for_dates_eq U_def[symmetric]
    using sorted_sort_Slice d cmp by (rule sorted_wrt_strict)
qed

lemma set_summaries_for_dates:
  assumes "\<forall>ks. mset (range_order ks) = mset ks"
  shows "set (summaries_for_dates fs range_order now project dates)
       = {expected_reminder c (periodIdentifier d c) | c d.
            c \<in> set summary_categories \<and> d \<in> set dates
            \<and> periodIdentifier d c \<noteq> periodIdentifier now c
            \<and> \<not> NoteExists fs project c (periodIdentifier d c)}"
  unfolding summaries_for_dates_eq set_sort_Slice by (rule set_unsorted_reminders[OF assms])

lemma summaries_determined:
  assumes "\<forall>ks. mset (order1 ks) = mset ks" "\<forall>ks. mset (order2 ks) = mset ks"
    and "set dates1 = set dates2"
    and "\<forall>c n. NoteExists fs1 project c n = NoteExists fs2 project c n"
  shows "summaries_for_dates fs1 order1 now project dates1 = summaries_for_dates fs2 order2 now project dates2"
proof (rule strict_sorted_unique)
  show "sorted_wrt reminder_less (summaries_for_dates fs1 order1 now project dates1)"
    using assms(1) by (rule summaries_strictly_sorted)
  show "sorted_wrt reminder_less (summaries_for_dates fs2 order2 now project dates2)"
    using assms(2) by (rule summaries_strictly_sorted)
  show "set (summaries_for_dates fs1 order1 now project dates1)
      = set (summaries_for_dates fs2 order2 now project dates2)"
    unfolding set_summaries_for_dates[OF assms(1)] set_summaries_for_dates[OF assms(2)]
    using assms(3,4) by simp
qed

lemma set_parse_daily_dates:
  "set (parse_daily_dates listed) = {d. \<exists>n \<in> set listed. Parse_2006_01_02 (nf_Name n) = Inr d}"
  by (induction listed) (auto split: sum.splits)

lemma set_note_entries:
  "set (note_entries c es)
     = {\<lparr>nf_Name = TrimSuffix name ''.md'', nf_Category = c\<rparr> | name.
          (name, False) \<in> set es \<and> HasSuffix name ''.md''}"
  by (induction c es rule: note_entries.induct) auto

lemma set_dates_without_undated:
  "{d. \<exists>n \<in> set (note_entries c (filter (\<lambda>(name, is_dir). parses_as_date (TrimSuffix name ''.md'')) es)).
         Parse_2006_01_02 (nf_Name n) = Inr d}
   = {d. \<exists>n \<in> set (note_entries c es). Parse_2006_01_02 (nf_Name n) = Inr d}"
proof -
  have "parses_as_date (TrimSuffix name ''.md'')" if "Parse_2006_01_02 (TrimSuffix name ''.md'') = Inr d"
    for name d using that by (simp add: parses_as_date_def)
  then show ?thesis unfolding set_note_entries by fastforce
qed

lemma NoteExists_without_undated: "NoteExists (without_undated fs) project c n = NoteExists fs project c n"
  by (simp add: NoteExists_def without_undated_def)

lemma CheckMissingSummaries_cases:
  "CheckMissingSummaries fs range_order now project =
     (case ListNotes fs project CategoryDaily of
        Inl err \<Rightarrow> Inl err
      | Inr notes \<Rightarrow> Inr (if parse_daily_dates notes = [] then []
                          else summaries_for_dates fs range_order now project (parse_daily_dates notes)))"
  unfolding CheckMissingSummaries_def
  by (cases "ListNotes fs project CategoryDaily") (auto simp: Let_def)

lemma scan_without_undated:
  assumes "\<forall>ks. mset (range_order ks) = mset ks"
  shows "CheckMissingSummaries (without_undated fs) range_order now project
       = CheckMissingSummaries fs range_order now project"
proof (cases "MkdirAll_ok fs project CategoryDaily")
  case False
  then show ?thesis by (simp add: CheckMissingSummaries_cases ListNotes_def without_undated_def)
next
  case True
  show ?thesis
  proof (cases "ReadDir fs project CategoryDaily")
    case None
    then show ?thesis using True by (simp add: CheckMissingSummaries_cases ListNotes_def without_undated_def)
  next
    case (Some es)
    define lt :: "NoteFile \<Rightarrow> NoteFile \<Rightarrow> bool" where "lt = (\<lambda>a b. nf_Name a > nf_Name b)"
    define es' where "es' = filter (\<lambda>(name, is_dir). parses_as_date (TrimSuffix name ''.md'')) es"
    define listed where "listed = sort_Slice lt (note_entries CategoryDaily es)"
    define listed' where "listed' = sort_Slice lt (note_entries CategoryDaily es')"
    have l: "ListNotes fs project CategoryDaily = Inr listed"
      using True Some by (simp add: ListNotes_def listed_def lt_def)
    have l': "ListNotes (without_undated fs) project CategoryDaily = Inr listed'"
      using True Some by (simp add: ListNotes_def listed'_def lt_def without_undated_def es'_def)
    have s: "set (parse_daily_dates listed') = set (parse_daily_dates listed)"
      unfolding set_parse_daily_dates listed_def listed'_def set_sort_Slice es'_def
      by (rule set_dates_without_undated)
    then have e: "parse_daily_dates listed' = [] \<longleftrightarrow> parse_daily_dates listed = []"
      by (metis set_empty)
    have "summaries_for_dates (without_undated fs) range_order now project (parse_daily_dates listed')
        = summaries_for_dates fs range_order now project (parse_daily_dates listed)"
      using assms assms s by (rule summaries_determined) (simp add: NoteExists_without_undated)
    then show ?thesis unfolding CheckMissingSummaries_cases l l' using e by simp
  qed
qed

lemma reminder_iff:
  assumes "\<forall>ks. mset (range_order ks) = mset ks"
    and "ListNotes fs project CategoryDaily = Inr notes"
    and "CheckMissingSummaries fs range_order now project = Inr reminders"
  shows "r \<in> set reminders \<longleftrightarrow>
           (\<exists>c \<in> set summary_categories. \<exists>d \<in> set (parse_daily_dates notes).
               r = expected_reminder c (periodIdentifier d c)
               \<and> periodIdentifier d c \<noteq> periodIdentifier now c
               \<and> \<not> NoteExists fs project c (periodIdentifier d c))"
proof (cases "parse_daily_dates notes = []")
  case True
  then show ?thesis using assms(3) unfolding CheckMissingSummaries_cases assms(2) by auto
next
  case False
  then have r: "reminders = summaries_for_dates fs range_order now project (parse_daily_dates notes)"
    using assms(3) unfolding CheckMissingSummaries_cases assms(2) by simp
  show ?thesis unfolding r set_summaries_for_dates[OF assms(1)] by auto
qed

section \<open>The claims\<close>

text \<open>
  C8 fails on the code. \<open>mondayOfISOWeek\<close> builds its times in \<^verbatim>\<open>time.Local\<close>, and
  \<^verbatim>\<open>AddDate\<close> asks for the local midnight of every day anew. In America/Santiago the
  clock skips the midnight that begins Sunday 2025-09-07. For \<open>D\<close> that Sunday, whose
  week is 2025-W36, the seven dates from \<open>mondayOfISOWeek\<close> of that name are Monday
  2025-09-01 to Saturday 2025-09-06 and the Saturday once more: they are not seven
  consecutive dates and \<open>D\<close> is not among them. In America/Sao_Paulo the clock skips the
  midnight that begins Monday 1997-10-06, and \<open>mondayOfISOWeek\<close> of 1997-W41 returns 23:00
  of Sunday 1997-10-05: the dates start on a Sunday (weekday 0).
\<close>

theorem week_of_date_skipped_midnight:
  "weekName (Date 2025 9 7) = ''2025-W36''
   \<and> mondayOfISOWeek America_Santiago ''2025-W36'' = Inr (Date_loc 2025 9 1 0 0 0 America_Santiago)
   \<and> daysOfWeek America_Santiago (Date_loc 2025 9 1 0 0 0 America_Santiago)
       = [Date 2025 9 1, Date 2025 9 2, Date 2025 9 3, Date 2025 9 4, Date 2025 9 5, Date 2025 9 6,
          Date 2025 9 6]
   \<and> Date 2025 9 7 \<notin> set (daysOfWeek America_Santiago (Date_loc 2025 9 1 0 0 0 America_Santiago))
   \<and> mondayOfISOWeek America_Sao_Paulo ''1997-W41'' = Inr (Date_loc 1997 10 5 23 0 0 America_Sao_Paulo)
   \<and> local_day America_Sao_Paulo (Date_loc 1997 10 5 23 0 0 America_Sao_Paulo) = Date 1997 10 5
   \<and> Weekday (Date 1997 10 5) = 0"
  by code_simp

text \<open>
  C7 (as amended). \<open>mondayOfISOWeek\<close> returns a value in every case, an error or a time.
  For every name of the form \<^verbatim>\<open>YYYY-Www\<close> it succeeds, whatever the zone of
  \<^verbatim>\<open>time.Local\<close>; so an error is returned only for a name that is not of that form,
  and it is a \<open>ParseError\<close>. The error is not exact the other way round: the name is
  read by \<^verbatim>\<open>Sscanf\<close> with \<^verbatim>\<open>%d-W%d\<close>, which also takes names that are not of that
  form.
\<close>

theorem mondayOfISOWeek_accepts_YYYY_Www:
  "(is_YYYY_Www name \<longrightarrow> (\<exists>monday. mondayOfISOWeek Local name = Inr monday))
   \<and> (mondayOfISOWeek Local name = Inl err \<longrightarrow> err = ParseError \<and> \<not> is_YYYY_Www name)"
proof (intro conjI impI)
  assume "is_YYYY_Www name"
  then show "\<exists>monday. mondayOfISOWeek Local name = Inr monday" by (rule mondayOfISOWeek_succeeds)
next
  assume e: "mondayOfISOWeek Local name = Inl err"
  then show "err = ParseError" by (rule mondayOfISOWeek_error)
  show "\<not> is_YYYY_Www name" using e mondayOfISOWeek_succeeds[of name Local] by auto
qed

theorem mondayOfISOWeek_accepts_YYYY_Www_witness:
  "is_YYYY_Www ''2025-W03'' \<and> (\<exists>monday. mondayOfISOWeek America_Santiago ''2025-W03'' = Inr monday)
   \<and> mondayOfISOWeek America_Santiago ''2025-w03'' = Inl ParseError \<and> \<not> is_YYYY_Www ''2025-w03''"
proof -
  have h: "is_YYYY_Www ''2025-W03''" by code_simp
  have e: "mondayOfISOWeek America_Santiago ''2025-w03'' = Inl ParseError" by code_simp
  note t1 = mondayOfISOWeek_accepts_YYYY_Www[where name = "''2025-W03''" and Local = America_Santiago
      and err = ParseError]
  note t2 = mondayOfISOWeek_accepts_YYYY_Www[where name = "''2025-w03''" and Local = America_Santiago
      and err = ParseError]
  show ?thesis using h e t1 t2 by blast
qed

text \<open>
  C7 as the specification states it fails: \<^verbatim>\<open>2025-W3\<close> is not of the form
  \<^verbatim>\<open>YYYY-Www\<close>, and \<open>mondayOfISOWeek\<close> returns a time for it, no error: in UTC the
  midnight that begins 2025-01-13.
\<close>

theorem mondayOfISOWeek_accepts_more:
  "mondayOfISOWeek UTC ''2025-W3'' = Inr (midnight UTC (Date 2025 1 13)) \<and> \<not> is_YYYY_Www ''2025-W3''"
  by code_simp

text \<open>So it is with text after the week, which \<^verbatim>\<open>Sscanf\<close> leaves unread, a sign, and
  white space before the year.\<close>

lemma mondayOfISOWeek_accepts_more_examples:
  "mondayOfISOWeek UTC ''2025-W03_'' = Inr (midnight UTC (Date 2025 1 13))"
  "mondayOfISOWeek UTC ''2025-W03.md'' = Inr (midnight UTC (Date 2025 1 13))"
  "mondayOfISOWeek UTC '' +2025-W+3'' = Inr (midnight UTC (Date 2025 1 13))"
  "mondayOfISOWeek UTC ''2025-w03'' = Inl ParseError"
  "mondayOfISOWeek UTC ''2025-W'' = Inl ParseError"
  by code_simp+

text \<open>
  C3 fails on the code, for the reason C8 does. The store has notes of Monday
  2025-09-01, Saturday 2025-09-06 and Sunday 2025-09-07, and \<^verbatim>\<open>time.Local\<close> is
  America/Santiago. The reference content of the week 2025-W36 has the block of the
  Saturday twice and no block of the Sunday, whose note is not empty: the seventh date
  read is the Saturday again.
\<close>

theorem gatherDailyForWeek_skipped_midnight:
  "is_YYYY_Www ''2025-W36''
   \<and> GatherReferenceContent september_fs America_Santiago ''work'' CategoryWeekly ''2025-W36''
       = Inr (rule2 @ '' 2025-09-01 (Monday) '' @ rule2 @ NL @ ''plan'' @ NL @ NL
              @ rule2 @ '' 2025-09-06 (Saturday) '' @ rule2 @ NL @ ''hike'' @ NL @ NL
              @ rule2 @ '' 2025-09-06 (Saturday) '' @ rule2 @ NL @ ''hike'')
   \<and> ReadNote september_fs ''work'' CategoryDaily ''2025-09-07'' = Inr ''rest''"
  by code_simp

text \<open>In UTC the same store gives the three blocks of the claim, and the scenario of the
  specification comes out as it says: of the week 2025-W03 only Monday and Wednesday
  have a note, and the content has exactly their two blocks.\<close>

lemma gatherDailyForWeek_example:
  "GatherReferenceContent september_fs UTC ''work'' CategoryWeekly ''2025-W36''
     = Inr (rule2 @ '' 2025-09-01 (Monday) '' @ rule2 @ NL @ ''plan'' @ NL @ NL
            @ rule2 @ '' 2025-09-06 (Saturday) '' @ rule2 @ NL @ ''hike'' @ NL @ NL
            @ rule2 @ '' 2025-09-07 (Sunday) '' @ rule2 @ NL @ ''rest'')"
  "GatherReferenceContent example_fs UTC ''work'' CategoryWeekly ''2025-W03''
     = Inr (rule2 @ '' 2025-01-13 (Monday) '' @ rule2 @ NL @ ''kickoff'' @ NL @ NL
            @ rule2 @ '' 2025-01-15 (Wednesday) '' @ rule2 @ NL @ ''review'')"
  by code_simp+





text \<open>The scenario of the specification: January 2025 overlaps the weeks 2025-W01 to
  2025-W05, found in this order, and of their five blocks only the one of 2025-W02 has
  content.\<close>

lemma gatherWeeklyForMonth_example:
  "GatherReferenceContent example_fs UTC ''work'' CategoryMonthly ''2025-01''
     = Inr (rule2 @ '' 2025-W01 '' @ rule2 @ NL @ ''(no summary)'' @ NL @ NL
            @ rule2 @ '' 2025-W02 '' @ rule2 @ NL @ ''shipped'' @ NL @ NL
            @ rule2 @ '' 2025-W03 '' @ rule2 @ NL @ ''(no summary)'' @ NL @ NL
            @ rule2 @ '' 2025-W04 '' @ rule2 @ NL @ ''(no summary)'' @ NL @ NL
            @ rule2 @ '' 2025-W05 '' @ rule2 @ NL @ ''(no summary)'')"
  by code_simp


lemma weeks_of_2025_01:
  "weekNames_loop 2025 1 31 1 (\<lambda>k. False) []
     = [''2025-W01'', ''2025-W02'', ''2025-W03'', ''2025-W04'', ''2025-W05'']"
  by code_simp

text \<open>
  C10. For every month name that parses, the list of week names that
  \<^verbatim>\<open>gatherWeeklyForMonth\<close> computes has at least four elements, so the reference
  content is never \<^verbatim>\<open>(no weekly summaries for this month)\<close>: it is the blocks of those
  weeks, at least four, joined by blank lines, unless reading a note fails.
\<close>

theorem month_overlaps_four_weeks:
  assumes "Parse_2006_01 name = Inr t"
  shows "(let weekNames = weekNames_loop (Year t) (Month t) (Day (Date (Year t) (Month t + 1) 0)) 1 (\<lambda>k. False) []
          in 4 \<le> length weekNames
             \<and> GatherReferenceContent fs Local project CategoryMonthly name
                 \<noteq> Inr ''(no weekly summaries for this month)''
             \<and> (GatherReferenceContent fs Local project CategoryMonthly name = Inl StoreError
                \<or> GatherReferenceContent fs Local project CategoryMonthly name
                    = Inr (Join (map (weekly_block fs project) weekNames) (NL @ NL))))"
proof -
  note p = Parse_2006_01_parts[OF assms]
  define weeks where "weeks = first_occurrences (map weekName (map (Date (Year t) (Month t)) [1..daysIn (Month t) (Year t)]))"
  have w: "weekNames_loop (Year t) (Month t) (Day (Date (Year t) (Month t + 1) 0)) 1 (\<lambda>k. False) [] = weeks"
    unfolding weeks_def by (simp add: daysInMonth_eq[OF p(3,4)] weekNames_loop_first_occurrences o_def)
  have len: "4 \<le> length weeks" unfolding weeks_def by (rule four_weeks_of_month[OF p(1-4)])
  then have ne: "weeks \<noteq> []" by auto
  note c = gatherWeeklyForMonth_cases[OF assms, of fs project, folded weeks_def]
  have "gatherWeeklyForMonth fs project name \<noteq> Inr ''(no weekly summaries for this month)''"
    using c ne Join_weekly_blocks_not_placeholder[OF ne, of fs project "NL @ NL"] by auto
  then show ?thesis unfolding w Let_def using len c ne by (simp add: GatherReferenceContent_def)
qed

theorem month_overlaps_four_weeks_witness:
  "Parse_2006_01 ''2025-01'' = Inr (Date 2025 1 1)
   \<and> (let weekNames = weekNames_loop (Year (Date 2025 1 1)) (Month (Date 2025 1 1))
                         (Day (Date (Year (Date 2025 1 1)) (Month (Date 2025 1 1) + 1) 0)) 1 (\<lambda>k. False) []
          in 4 \<le> length weekNames
             \<and> GatherReferenceContent example_fs UTC ''work'' CategoryMonthly ''2025-01''
                 \<noteq> Inr ''(no weekly summaries for this month)''
             \<and> (GatherReferenceContent example_fs UTC ''work'' CategoryMonthly ''2025-01'' = Inl StoreError
                \<or> GatherReferenceContent example_fs UTC ''work'' CategoryMonthly ''2025-01''
                    = Inr (Join (map (weekly_block example_fs ''work'') weekNames) (NL @ NL))))"
proof -
  have h: "Parse_2006_01 ''2025-01'' = Inr (Date 2025 1 1)" by code_simp
  show ?thesis using h month_overlaps_four_weeks[OF h, where Local = UTC] by blast
qed

text \<open>
  C5. Every sequence of reminders the scan returns is sorted by category in the order
  Weekly, Monthly, Quarterly, Yearly (the values 0, 1, 2, 3 of \<open>categoryOrder\<close>) and,
  within a category, by name strictly descending in the byte order of the names; every
  reminder is of one of these four categories and its label is the word of the category,
  then \<^verbatim>\<open> summary for \<close>, then the name. (\<open>range_order\<close>, the order in which
  \<^verbatim>\<open>range\<close> visits a map, is any rearrangement of the keys.)
\<close>

theorem reminders_sorted_and_labelled:
  assumes "\<forall>ks. mset (range_order ks) = mset ks"
    and "CheckMissingSummaries fs range_order now project = Inr reminders"
  shows "map categoryOrder summary_categories = [0, 1, 2, 3]
       \<and> sorted_wrt (\<lambda>a b. categoryOrder (Category a) < categoryOrder (Category b)
                        \<or> (Category a = Category b \<and> Name b < Name a)) reminders
       \<and> (\<forall>r \<in> set reminders. Category r \<in> set summary_categories
              \<and> Label r = category_word (Category r) @ '' summary for '' @ Name r)"
proof -
  have 0: "map categoryOrder summary_categories = [0, 1, 2, 3]"
    by (simp add: summary_categories_def categoryOrder_def)
  obtain listed where n: "ListNotes fs project CategoryDaily = Inr listed"
    using assms(2) unfolding CheckMissingSummaries_cases by (cases "ListNotes fs project CategoryDaily") auto
  show ?thesis
  proof (cases "parse_daily_dates listed = []")
    case True
    then have "reminders = []" using assms(2) unfolding CheckMissingSummaries_cases n by simp
    then show ?thesis using 0 by simp
  next
    case False
    then have r: "reminders = summaries_for_dates fs range_order now project (parse_daily_dates listed)"
      using assms(2) unfolding CheckMissingSummaries_cases n by simp
    have "sorted_wrt reminder_less reminders" unfolding r using assms(1) by (rule summaries_strictly_sorted)
    moreover have "reminder_less a b \<Longrightarrow> categoryOrder (Category a) < categoryOrder (Category b)
                        \<or> (Category a = Category b \<and> Name b < Name a)" for a b
      unfolding reminder_less_def Let_def by (auto simp: categoryOrder_inj split: if_splits)
    ultimately have 1: "sorted_wrt (\<lambda>a b. categoryOrder (Category a) < categoryOrder (Category b)
                        \<or> (Category a = Category b \<and> Name b < Name a)) reminders"
      by (rule sorted_wrt_mono_rel[rotated]) simp
    have 2: "\<forall>r \<in> set reminders. Category r \<in> set summary_categories
              \<and> Label r = category_word (Category r) @ '' summary for '' @ Name r"
      unfolding r set_summaries_for_dates[OF assms(1)] by (auto simp: expected_reminder_def)
    show ?thesis using 0 1 2 by simp
  qed
qed

theorem reminders_sorted_and_labelled_witness:
  "(\<forall>ks :: string list. mset (rev ks) = mset ks)
   \<and> CheckMissingSummaries example_fs rev (Date 2025 4 10) ''work'' = Inr example_reminders
   \<and> map categoryOrder summary_categories = [0, 1, 2, 3]
   \<and> sorted_wrt (\<lambda>a b. categoryOrder (Category a) < categoryOrder (Category b)
                        \<or> (Category a = Category b \<and> Name b < Name a)) example_reminders
   \<and> list_all (\<lambda>r. Category r \<in> set summary_categories
              \<and> Label r = category_word (Category r) @ '' summary for '' @ Name r) example_reminders"
proof -
  have h1: "\<forall>ks :: string list. mset (rev ks) = mset ks" by simp
  have h2: "CheckMissingSummaries example_fs rev (Date 2025 4 10) ''work'' = Inr example_reminders"
    by code_simp
  show ?thesis using h1 h2 reminders_sorted_and_labelled[OF h1 h2] unfolding list_all_iff by blast
qed

text \<open>
  C9. The scan is a function of the store and of the captured \<open>now\<close> alone: whatever
  the order in which \<^verbatim>\<open>range\<close> visits the keys of the four maps, in one call and in
  the next, \<open>CheckMissingSummaries\<close> returns the same sequence, in the same order.
\<close>

theorem scan_independent_of_range_order:
  assumes "\<forall>ks. mset (order1 ks) = mset ks" "\<forall>ks. mset (order2 ks) = mset ks"
  shows "CheckMissingSummaries fs order1 now project = CheckMissingSummaries fs order2 now project"
proof -
  have h: "summaries_for_dates fs order1 now project dates = summaries_for_dates fs order2 now project dates"
    for dates using assms by (rule summaries_determined) simp_all
  show ?thesis
  proof (cases "ListNotes fs project CategoryDaily")
    case (Inl err)
    then show ?thesis by (simp add: CheckMissingSummaries_cases)
  next
    case (Inr listed)
    then show ?thesis using h[of "parse_daily_dates listed"] by (simp add: CheckMissingSummaries_cases)
  qed
qed

theorem scan_independent_of_range_order_witness:
  "(\<forall>ks :: string list. mset ((\<lambda>ks. ks) ks) = mset ks)
   \<and> (\<forall>ks :: string list. mset (rev ks) = mset ks)
   \<and> CheckMissingSummaries example_fs (\<lambda>ks. ks) (Date 2025 4 10) ''work''
       = CheckMissingSummaries example_fs rev (Date 2025 4 10) ''work''"
proof -
  have h1: "\<forall>ks :: string list. mset ((\<lambda>ks. ks) ks) = mset ks" by simp
  have h2: "\<forall>ks :: string list. mset (rev ks) = mset ks" by simp
  show ?thesis
    using h1 h2 scan_independent_of_range_order[OF h1 h2, where fs = example_fs and now = "Date 2025 4 10"
        and project = "''work''"]
    by simp
qed

text \<open>
  C6. When the daily notes cannot be listed, the scan returns that error. When they can,
  the scan returns reminders, never an error; it returns none if no name parses as a
  date; and the names that do not parse are passed over: the scan returns the same on
  the store without them.
\<close>

theorem scan_skips_undated_notes:
  assumes "\<forall>ks. mset (range_order ks) = mset ks"
  shows "(ListNotes fs project CategoryDaily = Inl err \<longrightarrow>
            CheckMissingSummaries fs range_order now project = Inl err)
       \<and> (ListNotes fs project CategoryDaily = Inr listed \<longrightarrow>
            (\<exists>reminders. CheckMissingSummaries fs range_order now project = Inr reminders)
            \<and> (parse_daily_dates listed = [] \<longrightarrow> CheckMissingSummaries fs range_order now project = Inr []))
       \<and> CheckMissingSummaries (without_undated fs) range_order now project
            = CheckMissingSummaries fs range_order now project"
  using scan_without_undated[OF assms] by (simp add: CheckMissingSummaries_cases)

theorem scan_skips_undated_notes_witness:
  "(\<forall>ks :: string list. mset (rev ks) = mset ks)
   \<and> ListNotes failing_fs ''work'' CategoryDaily = Inl StoreError
   \<and> CheckMissingSummaries failing_fs rev (Date 2025 4 10) ''work'' = Inl StoreError
   \<and> ListNotes undated_fs ''work'' CategoryDaily
       = Inr [\<lparr>nf_Name = ''todo'', nf_Category = CategoryDaily\<rparr>,
              \<lparr>nf_Name = ''2025-1-3'', nf_Category = CategoryDaily\<rparr>]
   \<and> parse_daily_dates [\<lparr>nf_Name = ''todo'', nf_Category = CategoryDaily\<rparr>,
                         \<lparr>nf_Name = ''2025-1-3'', nf_Category = CategoryDaily\<rparr>] = []
   \<and> CheckMissingSummaries undated_fs rev (Date 2025 4 10) ''work'' = Inr []
   \<and> CheckMissingSummaries (without_undated example_fs) rev (Date 2025 4 10) ''work''
       = CheckMissingSummaries example_fs rev (Date 2025 4 10) ''work''"
proof -
  have h: "\<forall>ks :: string list. mset (rev ks) = mset ks" by simp
  have l1: "ListNotes failing_fs ''work'' CategoryDaily = Inl StoreError" by code_simp
  have l2: "ListNotes undated_fs ''work'' CategoryDaily
       = Inr [\<lparr>nf_Name = ''todo'', nf_Category = CategoryDaily\<rparr>,
              \<lparr>nf_Name = ''2025-1-3'', nf_Category = CategoryDaily\<rparr>]" by code_simp
  have p: "parse_daily_dates [\<lparr>nf_Name = ''todo'', nf_Category = CategoryDaily\<rparr>,
                         \<lparr>nf_Name = ''2025-1-3'', nf_Category = CategoryDaily\<rparr>] = []" by code_simp
  note t1 = scan_skips_undated_notes[OF h, where fs = failing_fs and project = "''work''"
      and err = StoreError and now = "Date 2025 4 10" and listed = "[]"]
  note t2 = scan_skips_undated_notes[OF h, where fs = undated_fs and project = "''work''"
      and now = "Date 2025 4 10" and err = StoreError
      and listed = "[\<lparr>nf_Name = ''todo'', nf_Category = CategoryDaily\<rparr>,
                     \<lparr>nf_Name = ''2025-1-3'', nf_Category = CategoryDaily\<rparr>]"]
  note t3 = scan_skips_undated_notes[OF h, where fs = example_fs and project = "''work''"
      and now = "Date 2025 4 10" and err = StoreError and listed = "[]"]
  have a: "CheckMissingSummaries failing_fs rev (Date 2025 4 10) ''work'' = Inl StoreError"
    using t1 l1 by blast
  have b: "CheckMissingSummaries undated_fs rev (Date 2025 4 10) ''work'' = Inr []"
    using t2 l2 p by blast
  have c: "CheckMissingSummaries (without_undated example_fs) rev (Date 2025 4 10) ''work''
       = CheckMissingSummaries example_fs rev (Date 2025 4 10) ''work''"
    using t3 by blast
  show ?thesis by (intro conjI h l1 l2 p a b c)
qed

text \<open>
  C1 fails on the code. The store holds the single daily note 2025-01-13, a Monday, and
  no summary; \<open>now\<close> is Sunday 2025-01-12, in the week 2025-W02. The week 2025-W03 has
  not begun, its Monday is the day after \<open>now\<close>, and the scan returns a reminder for it:
  the loop leaves out only the period that is equal to the current one, where its comment
  says that only past periods are considered.
\<close>

theorem scan_reminds_week_not_begun:
  "CheckMissingSummaries early_fs (\<lambda>ks. ks) (Date 2025 1 12) ''work''
     = Inr [\<lparr>Category = CategoryWeekly, Name = ''2025-W03'', Label = ''Weekly summary for 2025-W03''\<rparr>]
   \<and> weekName (Date 2025 1 12) = ''2025-W02''
   \<and> weekName (Date 2025 1 13) = ''2025-W03'' \<and> Weekday (Date 2025 1 13) = 1
   \<and> mondayOfISOWeek UTC ''2025-W03'' = Inr (midnight UTC (Date 2025 1 13))
   \<and> Date 2025 1 12 < Date 2025 1 13"
  by code_simp

end
